theory Spec2Isabelle
  imports Main "HOL-Library.AList"
begin

section \<open>Data model (main.go, lines 19-28 and 722-726)\<close>

text \<open>
  \<open>ListItem\<close> is the pair shown in a selection list; \<open>CacheItem\<close> is one entry of the
  JSON cache and \<open>CacheData\<close> the cache document. Both records of the source have fields
  called \<open>Name\<close> and \<open>Value\<close>; the unqualified names below are those of \<open>CacheItem\<close>,
  the ones of \<open>ListItem\<close> are written \<open>ListItem.Name\<close> and \<open>ListItem.Value\<close>.
\<close>

record ListItem =
  Name :: string
  Value :: string

record CacheItem =
  Name :: string
  Value :: string
  Enabled :: bool

record CacheData =
  Items :: "CacheItem list"

section \<open>The environment: the Run key, the cache file, the file system\<close>

text \<open>
  The registry library and the operating system are not part of the repository. They are
  modelled as a state \<open>world\<close> that the program's functions read and return updated.

  \<^item> \<open>raw_values\<close>: the named values of the Run key, in enumeration order. A value is a
    string (\<open>SZ\<close>) or has another registry type (\<open>NonString\<close>), for which
    \<open>GetStringValue\<close> fails with \<open>ErrUnexpectedType\<close>. The key holds UTF-16 text, and
    the registry package hands it to the program converted to UTF-8: \<open>run_values\<close>,
    defined below, is the content of the key as the program reads it.
  \<^item> \<open>open_query_ok\<close>, \<open>open_set_ok\<close>: whether \<open>OpenKey\<close> succeeds with the access
    right \<open>QUERY_VALUE\<close>, \<open>SET_VALUE\<close>.
  \<^item> \<open>read_names_ok\<close>, \<open>set_value_ok\<close>, \<open>delete_value_ok\<close>: whether \<open>ReadValueNames\<close>,
    \<open>SetStringValue\<close>, \<open>DeleteValue\<close> (of an existing value) succeed.
  \<^item> \<open>cache_file\<close>: the file \<open>autostart.json\<close>: absent, present but not openable,
    present with content that \<open>json.Decoder.Decode\<close> rejects, or present with a JSON
    document: \<open>FileDoc d\<close> is a file whose JSON text has the items of \<open>d\<close>, the
    strings of \<open>d\<close> being the bytes of the JSON strings.
  \<^item> \<open>save_mode\<close>: what happens in \<open>saveCache\<close>: \<open>os.Create\<close> fails, or it succeeds
    (truncating the file) and \<open>Encode\<close> fails, or both succeed.
  \<^item> \<open>abs_path\<close>: \<open>filepath.Abs\<close> (\<open>None\<close> when it returns an error);
    \<open>stat\<close>: the outcome of \<open>os.Stat\<close>.
\<close>

datatype reg_data = SZ string | NonString

datatype reg_error = ErrNotExist | ErrUnexpectedType | ErrAccess

datatype access = QUERY_VALUE | SET_VALUE

datatype cache_file = FileAbsent | FileUnreadable | FileCorrupt | FileDoc CacheData

datatype save_mode = SaveOk | CreateFails | EncodeFails

datatype stat_result = StatNotExist | StatOtherError | StatFile | StatDir

record world =
  raw_values :: "(string \<times> reg_data) list"
  open_query_ok :: bool
  open_set_ok :: bool
  read_names_ok :: bool
  set_value_ok :: bool
  delete_value_ok :: bool
  cache_file :: cache_file
  save_mode :: save_mode
  abs_path :: "string \<Rightarrow> string option"
  stat :: "string \<Rightarrow> stat_result"

section \<open>Strings in JSON and in the registry\<close>

text \<open>
  A Go string is a sequence of bytes, not necessarily valid UTF-8. \<open>json.Encoder\<close>
  writes every byte that does not start a well-formed UTF-8 sequence as the replacement
  character U+FFFD, and \<open>json.Decoder\<close> does the same to the bytes of a JSON string it
  reads; ASCII bytes and well-formed sequences come back as they are (escapes included).
  \<open>json_string s\<close> is the string that comes back.

  \<open>DecodeRuneSize\<close> is \<open>utf8.DecodeRuneInString\<close>, reduced to what the encoder uses:
  the width of the well-formed sequence at the head of the string, or \<open>0\<close> where Go
  returns \<open>RuneError\<close> with width 1 (or width 0, on the empty string).
  \<open>utf8_first\<close> is the table \<open>first\<close> of the package with its accept ranges: the
  width announced by the first byte and the bounds of the second byte.
\<close>

definition utf8_first :: "nat \<Rightarrow> nat \<times> nat \<times> nat" where
  "utf8_first b =
     (if b < 0x80 then (1, 0, 0)
      else if b < 0xC2 then (0, 0, 0)
      else if b < 0xE0 then (2, 0x80, 0xBF)
      else if b = 0xE0 then (3, 0xA0, 0xBF)
      else if b < 0xED then (3, 0x80, 0xBF)
      else if b = 0xED then (3, 0x80, 0x9F)
      else if b < 0xF0 then (3, 0x80, 0xBF)
      else if b = 0xF0 then (4, 0x90, 0xBF)
      else if b < 0xF4 then (4, 0x80, 0xBF)
      else if b = 0xF4 then (4, 0x80, 0x8F)
      else (0, 0, 0))"

definition in_range :: "char \<Rightarrow> nat \<Rightarrow> nat \<Rightarrow> bool" where
  "in_range c lo hi \<longleftrightarrow> lo \<le> of_char c \<and> of_char c \<le> hi"

definition DecodeRuneSize :: "string \<Rightarrow> nat" where
  "DecodeRuneSize s =
     (if length s < 1 then 0
      else (case utf8_first (of_char (s ! 0)) of
              (sz, lo, hi) \<Rightarrow>
                if sz \<le> 1 then sz
                else if length s < sz then 0
                else if \<not> in_range (s ! 1) lo hi then 0
                else if sz \<le> 2 then 2
                else if \<not> in_range (s ! 2) 0x80 0xBF then 0
                else if sz \<le> 3 then 3
                else if \<not> in_range (s ! 3) 0x80 0xBF then 0
                else 4))"

definition RuneError :: string where
  "RuneError = [CHR 0xEF, CHR 0xBF, CHR 0xBD]"

function json_string :: "string \<Rightarrow> string" where
  "json_string s =
     (if s = [] then []
      else if DecodeRuneSize s = 0 then RuneError @ json_string (drop 1 s)
      else take (DecodeRuneSize s) s @ json_string (drop (DecodeRuneSize s) s))"
  by pat_completeness auto
termination
  by (relation "measure length") auto

declare json_string.simps [simp del]

definition json_item :: "CacheItem \<Rightarrow> CacheItem" where
  "json_item item = item\<lparr>Name := json_string (Name item), Value := json_string (Value item)\<rparr>"

definition json_doc :: "CacheData \<Rightarrow> CacheData" where
  "json_doc data = data\<lparr>Items := map json_item (Items data)\<rparr>"

text \<open>
  The registry package converts the names and the string values of the key from UTF-16,
  so what the program gets is valid UTF-8 whatever the key holds. In the model the data
  of the key is \<open>raw_values\<close> and the program reads it through the same coercion:
  every content made of valid UTF-8 strings is the \<open>run_values\<close> of some world.
\<close>

definition utf8_entry :: "string \<times> reg_data \<Rightarrow> string \<times> reg_data" where
  "utf8_entry e =
     (json_string (fst e), (case snd e of SZ v \<Rightarrow> SZ (json_string v) | NonString \<Rightarrow> NonString))"

definition run_values :: "world \<Rightarrow> (string \<times> reg_data) list" where
  "run_values w = map utf8_entry (raw_values w)"

text \<open>The errors the program's functions return (the messages of their \<open>fmt.Errorf\<close>).\<close>

datatype error =
    AbsPathFailed
  | FileNotExist string
  | OpenKeyFailed reg_error
  | SetValueFailed reg_error
  | ItemNotExist
  | DeleteValueFailed reg_error
  | ReadNamesFailed reg_error
  | CacheOpenFailed
  | CacheDecodeFailed
  | SaveCreateFailed
  | SaveEncodeFailed

subsection \<open>Registry operations on the Run key\<close>

text \<open>
  The operations work on the content of the key as the program reads it. A name is
  looked up as it is given. \<open>SetStringValue\<close> stores the name and the value as the
  key holds them afterwards, converted like everything the key holds.
\<close>

definition OpenKey :: "world \<Rightarrow> access \<Rightarrow> reg_error + unit" where
  "OpenKey w a =
     (case a of
        QUERY_VALUE \<Rightarrow> if open_query_ok w then Inr () else Inl ErrAccess
      | SET_VALUE \<Rightarrow> if open_set_ok w then Inr () else Inl ErrAccess)"

definition ReadValueNames :: "world \<Rightarrow> reg_error + string list" where
  "ReadValueNames w =
     (if read_names_ok w then Inr (map fst (run_values w)) else Inl ErrAccess)"

definition GetStringValue :: "world \<Rightarrow> string \<Rightarrow> reg_error + string" where
  "GetStringValue w name =
     (case map_of (run_values w) name of
        None \<Rightarrow> Inl ErrNotExist
      | Some NonString \<Rightarrow> Inl ErrUnexpectedType
      | Some (SZ v) \<Rightarrow> Inr v)"

definition SetStringValue :: "string \<Rightarrow> string \<Rightarrow> world \<Rightarrow> reg_error + world" where
  "SetStringValue name v w =
     (if set_value_ok w
      then Inr (w\<lparr>raw_values :=
                  AList.update (json_string name) (SZ (json_string v)) (run_values w)\<rparr>)
      else Inl ErrAccess)"

definition DeleteValue :: "string \<Rightarrow> world \<Rightarrow> reg_error + world" where
  "DeleteValue name w =
     (if map_of (run_values w) name = None then Inl ErrNotExist
      else if delete_value_ok w
      then Inr (w\<lparr>raw_values := AList.delete name (run_values w)\<rparr>)
      else Inl ErrAccess)"

section \<open>The cache store (main.go, lines 109-142)\<close>

text \<open>
  \<open>loadCache\<close>: a missing file is the empty document; a file that cannot be opened for
  another reason, or whose content does not decode, is an error (\<open>return nil, err\<close>).
  The decoder coerces the strings of the document to valid UTF-8. \<open>saveCache\<close>: the
  encoder writes the strings of the document coerced to valid UTF-8, so the file holds
  \<open>json_doc data\<close>.
\<close>

definition loadCache :: "world \<Rightarrow> error + CacheData" where
  "loadCache w =
     (case cache_file w of
        FileAbsent \<Rightarrow> Inr \<lparr>Items = []\<rparr>
      | FileUnreadable \<Rightarrow> Inl CacheOpenFailed
      | FileCorrupt \<Rightarrow> Inl CacheDecodeFailed
      | FileDoc d \<Rightarrow> Inr (json_doc d))"

definition saveCache :: "CacheData \<Rightarrow> world \<Rightarrow> error option \<times> world" where
  "saveCache data w =
     (case save_mode w of
        CreateFails \<Rightarrow> (Some SaveCreateFailed, w)
      | EncodeFails \<Rightarrow> (Some SaveEncodeFailed, w\<lparr>cache_file := FileCorrupt\<rparr>)
      | SaveOk \<Rightarrow> (None, w\<lparr>cache_file := FileDoc (json_doc data)\<rparr>))"

section \<open>Cache helpers (main.go, lines 144-175)\<close>

text \<open>
  \<open>findItemByName\<close> returns the index of the first item with the name and a pointer to
  a copy of it, or \<open>-1\<close> and \<open>nil\<close>. \<open>find_from\<close> is its loop, started at index \<open>i\<close>.
\<close>

fun find_from :: "CacheItem list \<Rightarrow> string \<Rightarrow> int \<Rightarrow> int \<times> CacheItem option" where
  "find_from [] name i = (-1, None)"
| "find_from (item # rest) name i =
     (if Name item = name then (i, Some item) else find_from rest name (i + 1))"

definition findItemByName :: "CacheData \<Rightarrow> string \<Rightarrow> int \<times> CacheItem option" where
  "findItemByName data name = find_from (Items data) name 0"

definition addOrUpdateItem :: "CacheData \<Rightarrow> string \<Rightarrow> string \<Rightarrow> bool \<Rightarrow> CacheData" where
  "addOrUpdateItem data name v enabled =
     (let idx = fst (findItemByName data name) in
      if idx \<ge> 0
      then data\<lparr>Items := (Items data)
             [nat idx := (Items data ! nat idx)\<lparr>Value := v, Enabled := enabled\<rparr>]\<rparr>
      else data\<lparr>Items := Items data @ [\<lparr>Name = name, Value = v, Enabled = enabled\<rparr>]\<rparr>)"


section \<open>Sync (main.go, lines 44-102)\<close>

text \<open>
  The loop of lines 65-71 builds the map \<open>registryItems\<close>: a name whose string value
  cannot be read is skipped.
\<close>

fun read_registryItems ::
  "world \<Rightarrow> string list \<Rightarrow> (string \<rightharpoonup> string) \<Rightarrow> (string \<rightharpoonup> string)" where
  "read_registryItems w [] registryItems = registryItems"
| "read_registryItems w (name # names) registryItems =
     (case GetStringValue w name of
        Inr v \<Rightarrow> read_registryItems w names (registryItems(name \<mapsto> v))
      | Inl err \<Rightarrow> read_registryItems w names registryItems)"

text \<open>Step 1 (lines 73-80): a cached item whose name is not a key of the map is disabled.\<close>

fun sync_step1 :: "(string \<rightharpoonup> string) \<Rightarrow> CacheItem list \<Rightarrow> CacheItem list" where
  "sync_step1 registryItems [] = []"
| "sync_step1 registryItems (item # rest) =
     (if registryItems (Name item) = None then item\<lparr>Enabled := False\<rparr> else item)
       # sync_step1 registryItems rest"

text \<open>
  Step 2 (lines 82-98) ranges over the map. Go leaves the order of a \<open>range\<close> over a map
  unspecified, so the order is a parameter: \<open>keys\<close> is the sequence of keys in the order
  the loop visits them. \<open>range_visits\<close> says that the sequence is one a \<open>range\<close> can
  produce: every key of the map, once.
\<close>

fun sync_step2 :: "(string \<rightharpoonup> string) \<Rightarrow> string list \<Rightarrow> CacheData \<Rightarrow> CacheData" where
  "sync_step2 registryItems [] cache = cache"
| "sync_step2 registryItems (name # keys) cache =
     (case registryItems name of
        None \<Rightarrow> sync_step2 registryItems keys cache
      | Some v \<Rightarrow>
          (let idx = fst (findItemByName cache name) in
           if idx \<ge> 0
           then sync_step2 registryItems keys
                  (cache\<lparr>Items := (Items cache)
                     [nat idx := (Items cache ! nat idx)\<lparr>Value := v, Enabled := True\<rparr>]\<rparr>)
           else sync_step2 registryItems keys
                  (cache\<lparr>Items := Items cache @ [\<lparr>Name = name, Value = v, Enabled = True\<rparr>]\<rparr>)))"

definition range_visits :: "(string \<rightharpoonup> string) \<Rightarrow> string list \<Rightarrow> bool" where
  "range_visits registryItems keys \<longleftrightarrow> distinct keys \<and> set keys = dom registryItems"

definition syncCacheFromRegistry :: "string list \<Rightarrow> world \<Rightarrow> world" where
  "syncCacheFromRegistry keys w =
     (case loadCache w of
        Inl err \<Rightarrow> w
      | Inr cache \<Rightarrow>
          (case OpenKey w QUERY_VALUE of
             Inl err \<Rightarrow> w
           | Inr key \<Rightarrow>
               (case ReadValueNames w of
                  Inl err \<Rightarrow> w
                | Inr names \<Rightarrow>
                    (let registryItems = read_registryItems w names Map.empty;
                         cache1 = cache\<lparr>Items := sync_step1 registryItems (Items cache)\<rparr>;
                         cache2 = sync_step2 registryItems keys cache1
                     in snd (saveCache cache2 w)))))"

text \<open>The snapshot of the registry that a Sync run on \<open>w\<close> works with.\<close>

definition registry_snapshot :: "world \<Rightarrow> (string \<rightharpoonup> string)" where
  "registry_snapshot w = read_registryItems w (map fst (run_values w)) Map.empty"


section \<open>Registry writers (main.go, lines 669-718 and 869-883)\<close>

text \<open>The quoted command that \<open>fmt.Sprintf\<close> builds from the absolute path.\<close>

definition quoted :: "string \<Rightarrow> string" where
  "quoted absPath = [CHR 0x22] @ absPath @ [CHR 0x22]"

definition AddToStartup :: "string \<Rightarrow> string \<Rightarrow> world \<Rightarrow> error + world" where
  "AddToStartup exePath appName w =
     (case abs_path w exePath of
        None \<Rightarrow> Inl AbsPathFailed
      | Some absPath \<Rightarrow>
          if stat w absPath = StatNotExist then Inl (FileNotExist absPath)
          else (case OpenKey w SET_VALUE of
                  Inl err \<Rightarrow> Inl (OpenKeyFailed err)
                | Inr key \<Rightarrow>
                    (case SetStringValue appName (quoted absPath) w of
                       Inl err \<Rightarrow> Inl (SetValueFailed err)
                     | Inr w' \<Rightarrow> Inr w')))"

definition RemoveFromStartup :: "string \<Rightarrow> world \<Rightarrow> error + world" where
  "RemoveFromStartup appName w =
     (case OpenKey w SET_VALUE of
        Inl err \<Rightarrow> Inl (OpenKeyFailed err)
      | Inr key \<Rightarrow>
          (case DeleteValue appName w of
             Inl err \<Rightarrow> if err = ErrNotExist then Inl ItemNotExist else Inl (DeleteValueFailed err)
           | Inr w' \<Rightarrow> Inr w'))"

definition AddCommandToStartup :: "string \<Rightarrow> string \<Rightarrow> world \<Rightarrow> error + world" where
  "AddCommandToStartup command appName w =
     (case OpenKey w SET_VALUE of
        Inl err \<Rightarrow> Inl (OpenKeyFailed err)
      | Inr key \<Rightarrow>
          (case SetStringValue appName command w of
             Inl err \<Rightarrow> Inl (SetValueFailed err)
           | Inr w' \<Rightarrow> Inr w'))"

section \<open>The menu handlers (main.go, lines 219-377 and 728-989)\<close>

text \<open>
  The console is an external collaborator. A line typed at a numbered list is taken as
  already read and trimmed: \<open>Back\<close> is the answer \<open>b\<close> or \<open>B\<close>, \<open>Number n\<close> a line that
  \<open>strconv.Atoi\<close> parses to \<open>n\<close>, \<open>Invalid\<close> any other line. The answer to a yes/no
  prompt is a boolean (\<open>True\<close> for \<open>y\<close> or \<open>yes\<close>). A handler returns what it reported
  and the world it leaves. \<open>Panicked\<close> is the run-time panic of a nil dereference: the
  handlers that ignore the error of \<open>loadCache\<close> pass its nil document on to
  \<open>addOrUpdateItem\<close> or \<open>removeItem\<close>, which read \<open>data.Items\<close>.
\<close>

datatype menu_input = Back | Number int | Invalid

datatype outcome =
    Succeeded
  | Failed error
  | Cancelled
  | InvalidChoice
  | NothingToShow
  | Reprompt
  | Panicked

definition showListWithBack :: "ListItem list \<Rightarrow> menu_input \<Rightarrow> int \<times> bool" where
  "showListWithBack items choice =
     (if length items = 0 then (-1, False)
      else (case choice of
              Back \<Rightarrow> (-1, False)
            | Invalid \<Rightarrow> (-1, False)
            | Number num \<Rightarrow>
                if num < 1 \<or> num > int (length items) then (-1, False)
                else (num - 1, True)))"

text \<open>The lists that \<open>handleEnable\<close> and \<open>handleDisable\<close> filter out of the cache.\<close>

definition disabledItems :: "CacheData \<Rightarrow> ListItem list" where
  "disabledItems cache =
     map (\<lambda>item. \<lparr>ListItem.Name = Name item, ListItem.Value = Value item\<rparr>)
       (filter (\<lambda>item. \<not> Enabled item) (Items cache))"

definition enabledItems :: "CacheData \<Rightarrow> ListItem list" where
  "enabledItems cache =
     map (\<lambda>item. \<lparr>ListItem.Name = Name item, ListItem.Value = Value item\<rparr>)
       (filter (\<lambda>item. Enabled item) (Items cache))"

definition handleEnable :: "menu_input \<Rightarrow> bool \<Rightarrow> world \<Rightarrow> outcome \<times> world" where
  "handleEnable choice confirm w =
     (case loadCache w of
        Inl err \<Rightarrow> (Failed err, w)
      | Inr cache \<Rightarrow>
          (case showListWithBack (disabledItems cache) choice of
             (idx, ok) \<Rightarrow>
               if \<not> ok then (Cancelled, w)
               else (let selectedItem = disabledItems cache ! nat idx in
                     if \<not> confirm then (Cancelled, w)
                     else (case AddCommandToStartup (ListItem.Value selectedItem)
                                  (ListItem.Name selectedItem) w of
                             Inl err \<Rightarrow> (Failed err, w)
                           | Inr w' \<Rightarrow>
                               (Succeeded,
                                snd (saveCache
                                      (addOrUpdateItem cache (ListItem.Name selectedItem)
                                         (ListItem.Value selectedItem) True) w'))))))"

definition handleDisable :: "menu_input \<Rightarrow> bool \<Rightarrow> world \<Rightarrow> outcome \<times> world" where
  "handleDisable choice confirm w =
     (case loadCache w of
        Inl err \<Rightarrow> (Failed err, w)
      | Inr cache \<Rightarrow>
          (case showListWithBack (enabledItems cache) choice of
             (idx, ok) \<Rightarrow>
               if \<not> ok then (Cancelled, w)
               else (let selectedItem = enabledItems cache ! nat idx in
                     if \<not> confirm then (Cancelled, w)
                     else (case RemoveFromStartup (ListItem.Name selectedItem) w of
                             Inl err \<Rightarrow> (Failed err, w)
                           | Inr w' \<Rightarrow>
                               (Succeeded,
                                snd (saveCache
                                      (addOrUpdateItem cache (ListItem.Name selectedItem)
                                         (ListItem.Value selectedItem) False) w'))))))"

text \<open>
  \<open>handleAddToStartup\<close>: \<open>exePath\<close> is what \<open>selectExeFile\<close> returned (empty when the
  user went back), \<open>appName\<close> what \<open>getAppName\<close> made of it, \<open>overwrite\<close> the answer to
  the question asked when the name is already in the registry, \<open>confirm\<close> the answer to
  the final confirmation.
\<close>

definition handleAddToStartup ::
  "string \<Rightarrow> string \<Rightarrow> bool \<Rightarrow> bool \<Rightarrow> world \<Rightarrow> outcome \<times> world" where
  "handleAddToStartup exePath appName overwrite confirm w =
     (if exePath = [] then (Cancelled, w)
      else
        (let absPath = (case abs_path w exePath of Some p \<Rightarrow> p | None \<Rightarrow> []);
             regValue = quoted absPath;
             exists = (case OpenKey w QUERY_VALUE of
                         Inl err \<Rightarrow> False
                       | Inr key \<Rightarrow>
                           (case GetStringValue w appName of
                              Inl err \<Rightarrow> False
                            | Inr v \<Rightarrow> True))
         in if exists \<and> \<not> overwrite then (Cancelled, w)
            else if \<not> confirm then (Cancelled, w)
            else (case AddToStartup exePath appName w of
                    Inl err \<Rightarrow> (Failed err, w)
                  | Inr w' \<Rightarrow>
                      (case loadCache w' of
                         Inl err \<Rightarrow> (Panicked, w')
                       | Inr cache \<Rightarrow>
                           (Succeeded,
                            snd (saveCache (addOrUpdateItem cache appName regValue True) w'))))))"



section \<open>Auxiliary list functions\<close>

text \<open>
  What \<open>addOrUpdateItem\<close>, \<open>removeItem\<close> and step 2 of Sync do to the list of items,
  written by recursion on the list. They are used in the proofs only; the lemmas
  \<open>Items_addOrUpdateItem\<close>, \<open>Items_removeItem\<close> and \<open>sync_step2_items\<close> relate them to
  the functions of the program.
\<close>

primrec upsert :: "string \<Rightarrow> string \<Rightarrow> bool \<Rightarrow> CacheItem list \<Rightarrow> CacheItem list" where
  "upsert name v enabled [] = [\<lparr>Name = name, Value = v, Enabled = enabled\<rparr>]"
| "upsert name v enabled (item # rest) =
     (if Name item = name then item\<lparr>Value := v, Enabled := enabled\<rparr> # rest
      else item # upsert name v enabled rest)"


primrec step2_items :: "(string \<rightharpoonup> string) \<Rightarrow> string list \<Rightarrow> CacheItem list \<Rightarrow> CacheItem list" where
  "step2_items registryItems [] xs = xs"
| "step2_items registryItems (name # keys) xs =
     (case registryItems name of
        None \<Rightarrow> step2_items registryItems keys xs
      | Some v \<Rightarrow> step2_items registryItems keys (upsert name v True xs))"

section \<open>Name uniqueness\<close>




section \<open>Example worlds\<close>

text \<open>Concrete states at which the theorems below are instantiated.\<close>

definition example_cache :: CacheData where
  "example_cache =
     \<lparr>Items = [\<lparr>Name = ''Bar'', Value = ''bar.exe'', Enabled = True\<rparr>,
               \<lparr>Name = ''Odd'', Value = ''odd.exe'', Enabled = True\<rparr>]\<rparr>"

definition example_world :: world where
  "example_world =
     \<lparr>raw_values = [(''Foo'', SZ ''foo.exe''), (''Odd'', NonString)],
      open_query_ok = True, open_set_ok = True, read_names_ok = True,
      set_value_ok = True, delete_value_ok = True,
      cache_file = FileDoc example_cache, save_mode = SaveOk,
      abs_path = (\<lambda>p. Some p), stat = (\<lambda>p. StatFile)\<rparr>"

definition absent_world :: world where
  "absent_world = example_world\<lparr>cache_file := FileAbsent\<rparr>"

definition corrupt_world :: world where
  "corrupt_world =
     \<lparr>raw_values = [(''Foo'', SZ ''foo.exe'')],
      open_query_ok = True, open_set_ok = True, read_names_ok = True,
      set_value_ok = True, delete_value_ok = True,
      cache_file = FileCorrupt, save_mode = SaveOk,
      abs_path = (\<lambda>p. Some p), stat = (\<lambda>p. StatFile)\<rparr>"

definition synced_cache :: CacheData where
  "synced_cache =
     \<lparr>Items = [\<lparr>Name = ''Bar'', Value = ''bar.exe'', Enabled = False\<rparr>,
               \<lparr>Name = ''Foo'', Value = ''foo.exe'', Enabled = True\<rparr>]\<rparr>"

definition synced_world :: world where
  "synced_world =
     \<lparr>raw_values = [(''Foo'', SZ ''foo.exe'')],
      open_query_ok = True, open_set_ok = True, read_names_ok = True,
      set_value_ok = True, delete_value_ok = True,
      cache_file = FileDoc \<lparr>Items = [\<lparr>Name = ''Bar'', Value = ''bar.exe'', Enabled = False\<rparr>,
                                      \<lparr>Name = ''Foo'', Value = ''foo.exe'', Enabled = True\<rparr>]\<rparr>,
      save_mode = SaveOk,
      abs_path = (\<lambda>p. Some p), stat = (\<lambda>p. StatFile)\<rparr>"

definition disabled_cache :: CacheData where
  "disabled_cache =
     \<lparr>Items = [\<lparr>Name = ''Bar'', Value = ''bar.exe'', Enabled = False\<rparr>,
               \<lparr>Name = ''Foo'', Value = ''foo.exe'', Enabled = False\<rparr>]\<rparr>"

definition disabled_world :: world where
  "disabled_world = synced_world\<lparr>raw_values := [], cache_file := FileDoc disabled_cache\<rparr>"

definition stale_world :: world where
  "stale_world =
     \<lparr>raw_values = [(''Foo'', SZ ''new.exe'')],
      open_query_ok = True, open_set_ok = True, read_names_ok = True,
      set_value_ok = True, delete_value_ok = True,
      cache_file = FileDoc \<lparr>Items = [\<lparr>Name = ''Foo'', Value = ''old.exe'', Enabled = True\<rparr>]\<rparr>,
      save_mode = SaveOk,
      abs_path = (\<lambda>p. Some p), stat = (\<lambda>p. StatFile)\<rparr>"

definition removed_world :: world where
  "removed_world =
     \<lparr>raw_values = [],
      open_query_ok = True, open_set_ok = True, read_names_ok = True,
      set_value_ok = True, delete_value_ok = True,
      cache_file = FileDoc \<lparr>Items = [\<lparr>Name = ''Foo'', Value = ''foo.exe'', Enabled = True\<rparr>]\<rparr>,
      save_mode = SaveOk,
      abs_path = (\<lambda>p. Some p), stat = (\<lambda>p. StatFile)\<rparr>"

definition readonly_world :: world where
  "readonly_world =
     \<lparr>raw_values = [],
      open_query_ok = True, open_set_ok = True, read_names_ok = True,
      set_value_ok = False, delete_value_ok = True,
      cache_file = FileDoc \<lparr>Items = [\<lparr>Name = ''Foo'', Value = ''foo.exe'', Enabled = False\<rparr>]\<rparr>,
      save_mode = SaveOk,
      abs_path = (\<lambda>p. Some p), stat = (\<lambda>p. StatFile)\<rparr>"

definition missing_file_world :: world where
  "missing_file_world = example_world\<lparr>stat := (\<lambda>p. StatNotExist)\<rparr>"

definition write_denied_world :: world where
  "write_denied_world = example_world\<lparr>set_value_ok := False\<rparr>"

definition directory_world :: world where
  "directory_world = example_world\<lparr>stat := (\<lambda>p. StatDir)\<rparr>"


section \<open>Lemmas: strings coerced to valid UTF-8\<close>

lemma utf8_first_size: "fst (utf8_first b) \<le> 4"
  by (simp add: utf8_first_def)

lemma DecodeRuneSize_le: "DecodeRuneSize s \<le> length s"
proof (cases "utf8_first (of_char (s ! 0))")
  case (fields sz lo hi)
  have "sz \<le> 4" using utf8_first_size [of "of_char (s ! 0)"] fields by simp
  moreover have "s = []" if "length s < sz" "sz \<le> Suc 0"
    using that by (cases s) auto
  ultimately show ?thesis using fields by (auto simp add: DecodeRuneSize_def)
qed

lemma DecodeRuneSize_prefix:
  assumes "DecodeRuneSize s = n" and "0 < n"
  shows "DecodeRuneSize (take n s @ t) = n"
proof -
  have n: "n \<le> length s" using assms DecodeRuneSize_le by blast
  have nth: "(take n s @ t) ! i = s ! i" if "i < n" for i
    using that n by (simp add: nth_append)
  have len: "length (take n s @ t) = n + length t" using n by simp
  obtain sz lo hi where f: "utf8_first (of_char (s ! 0)) = (sz, lo, hi)"
    by (cases "utf8_first (of_char (s ! 0))") auto
  have sz4: "sz \<le> 4" using utf8_first_size [of "of_char (s ! 0)"] f by simp
  have n0: "(take n s @ t) ! 0 = s ! 0" using nth [of 0] assms(2) by simp
  consider "n = 1" | "n = 2" | "n = 3" | "n = 4"
    using assms f sz4 by (auto simp add: DecodeRuneSize_def split: if_splits)
  then show ?thesis
  proof cases
    case 1
    then show ?thesis using assms f sz4 n0 len
      by (auto simp add: DecodeRuneSize_def split: if_splits)
  next
    case 2
    then show ?thesis using assms f sz4 n0 nth [of 1] len
      by (auto simp add: DecodeRuneSize_def split: if_splits)
  next
    case 3
    then show ?thesis using assms f sz4 n0 nth [of 1] nth [of 2] len
      by (auto simp add: DecodeRuneSize_def split: if_splits)
  next
    case 4
    then show ?thesis using assms f sz4 n0 nth [of 1] nth [of 2] nth [of 3] len
      by (auto simp add: DecodeRuneSize_def split: if_splits)
  qed
qed

lemma DecodeRuneSize_RuneError: "DecodeRuneSize (RuneError @ t) = 3"
  by (simp add: DecodeRuneSize_def RuneError_def utf8_first_def in_range_def)

lemma json_string_Nil: "json_string [] = []"
  by (subst json_string.simps) simp

lemma json_string_chunk:
  assumes "DecodeRuneSize (p @ t) = length p" and "p \<noteq> []"
  shows "json_string (p @ t) = p @ json_string t"
  using assms by (subst json_string.simps) simp

lemma json_string_idem: "json_string (json_string s) = json_string s"
proof (induction s rule: json_string.induct)
  case (1 s)
  show ?case
  proof (cases "s = []")
    case True
    then show ?thesis by (simp add: json_string_Nil)
  next
    case False
    note ne = this
    show ?thesis
    proof (cases "DecodeRuneSize s = 0")
      case True
      have a: "json_string s = RuneError @ json_string (drop 1 s)"
        using ne True by (subst json_string.simps) simp
      have "json_string (RuneError @ json_string (drop 1 s)) =
              RuneError @ json_string (json_string (drop 1 s))"
        by (rule json_string_chunk) (simp_all add: DecodeRuneSize_RuneError, simp_all add: RuneError_def)
      then show ?thesis using a "1.IH"(1) [OF ne True] by simp
    next
      case False
      let ?n = "DecodeRuneSize s"
      have pos: "0 < ?n" using False by simp
      have le: "?n \<le> length s" by (rule DecodeRuneSize_le)
      have a: "json_string s = take ?n s @ json_string (drop ?n s)"
        using ne False by (subst json_string.simps) simp
      have "DecodeRuneSize (take ?n s @ json_string (drop ?n s)) = ?n"
        using pos by (intro DecodeRuneSize_prefix) simp_all
      then have "json_string (take ?n s @ json_string (drop ?n s)) =
              take ?n s @ json_string (json_string (drop ?n s))"
        using pos le ne by (intro json_string_chunk) auto
      then show ?thesis using a "1.IH"(2) [OF ne False] by simp
    qed
  qed
qed

lemma json_string_ascii:
  "\<forall>c \<in> set s. (of_char c :: nat) < 0x80 \<Longrightarrow> json_string s = s"
proof (induction s)
  case Nil
  show ?case by (simp add: json_string_Nil)
next
  case (Cons c s)
  have "DecodeRuneSize (c # s) = 1"
    using Cons.prems by (simp add: DecodeRuneSize_def utf8_first_def)
  then show ?case using Cons by (subst json_string.simps) simp
qed



lemma json_item_idem: "json_item (json_item x) = json_item x"
  by (simp add: json_item_def json_string_idem)

lemma json_doc_idem: "json_doc (json_doc d) = json_doc d"
  by (simp add: json_doc_def json_item_idem)

lemma json_item_fixed:
  "json_item x = x \<longleftrightarrow> json_string (Name x) = Name x \<and> json_string (Value x) = Value x"
  by (cases x) (simp add: json_item_def)

lemma json_doc_fixed: "json_doc d = d \<longleftrightarrow> (\<forall>x \<in> set (Items d). json_item x = x)"
  by (cases d) (simp add: json_doc_def map_idI map_eq_conv [where g = "\<lambda>x. x", simplified])


lemma utf8_entry_idem: "utf8_entry (utf8_entry e) = utf8_entry e"
  by (cases e; cases "snd e") (simp_all add: utf8_entry_def json_string_idem)

lemma run_values_fixed: "e \<in> set (run_values w) \<Longrightarrow> utf8_entry e = e"
  by (auto simp add: run_values_def utf8_entry_idem)

lemma run_values_raw:
  "\<forall>e \<in> set rv. utf8_entry e = e \<Longrightarrow> run_values (w\<lparr>raw_values := rv\<rparr>) = rv"
  by (simp add: run_values_def map_idI)

lemma run_values_delete:
  "run_values (w\<lparr>raw_values := AList.delete n (run_values w)\<rparr>) = AList.delete n (run_values w)"
  by (rule run_values_raw) (auto simp add: AList.delete_eq run_values_fixed)

lemma run_values_update:
  "json_string n = n \<Longrightarrow> json_string v = v \<Longrightarrow>
   run_values (w\<lparr>raw_values := AList.update n (SZ v) (run_values w)\<rparr>) =
     AList.update n (SZ v) (run_values w)"
proof (rule run_values_raw)
  assume "json_string n = n" "json_string v = v"
  then have "utf8_entry (n, SZ v) = (n, SZ v)" by (simp add: utf8_entry_def)
  moreover have "set (AList.update n (SZ v) xs) \<subseteq> insert (n, SZ v) (set xs)" for xs
    by (induction xs) auto
  ultimately show "\<forall>e \<in> set (AList.update n (SZ v) (run_values w)). utf8_entry e = e"
    using run_values_fixed by blast
qed

lemma run_values_cache_file: "run_values (w\<lparr>cache_file := f\<rparr>) = run_values w"
  by (simp add: run_values_def)

lemma GetStringValue_valid:
  assumes "GetStringValue w n = Inr v"
  shows "json_string n = n \<and> json_string v = v"
proof -
  have "map_of (run_values w) n = Some (SZ v)"
    using assms by (auto simp add: GetStringValue_def split: option.splits reg_data.splits)
  then have "(n, SZ v) \<in> set (run_values w)" by (rule map_of_SomeD)
  then have "utf8_entry (n, SZ v) = (n, SZ v)" by (rule run_values_fixed)
  then show ?thesis by (simp add: utf8_entry_def)
qed

lemma loadCache_valid: "loadCache w = Inr C \<Longrightarrow> json_doc C = C"
proof (cases "cache_file w")
  case (FileDoc d)
  assume "loadCache w = Inr C"
  then have "C = json_doc d" using FileDoc by (simp add: loadCache_def)
  then show ?thesis by (simp add: json_doc_idem)
qed (auto simp add: loadCache_def json_doc_def)

lemma loadCache_FileDoc: "json_doc C = C \<Longrightarrow> loadCache (w\<lparr>cache_file := FileDoc C\<rparr>) = Inr C"
  by (simp add: loadCache_def)

lemma saveCache_SaveOk:
  "save_mode w = SaveOk \<Longrightarrow> json_doc d = d \<Longrightarrow> saveCache d w = (None, w\<lparr>cache_file := FileDoc d\<rparr>)"
  by (simp add: saveCache_def)

lemmas eval_defs = run_values_def utf8_entry_def json_doc_def json_item_def json_string_ascii
  example_cache_def synced_cache_def disabled_cache_def

section \<open>Lemmas: the cache helpers as list functions\<close>

text \<open>
  The index arithmetic of \<open>findItemByName\<close>, \<open>addOrUpdateItem\<close> and \<open>removeItem\<close> is
  related once to the structurally recursive \<open>upsert\<close> and \<open>remove_first\<close>; the
  properties below are then proved by induction on the list.
\<close>

lemma find_from_shift:
  "fst (find_from xs name i) =
     (if name \<in> Name ` set xs then i + fst (find_from xs name 0) else -1)"
proof (induction xs arbitrary: i)
  case Nil
  show ?case by simp
next
  case (Cons x xs)
  show ?case using Cons.IH [of "i + 1"] Cons.IH [of 1] by auto
qed

lemma find_from_nonneg:
  "0 \<le> fst (find_from xs name 0) \<longleftrightarrow> name \<in> Name ` set xs"
proof (induction xs)
  case Nil
  show ?case by simp
next
  case (Cons x xs)
  show ?case using Cons.IH find_from_shift [of xs name 1] by auto
qed

lemma find_from_upsert:
  "(let idx = fst (find_from xs name 0) in
      if idx \<ge> 0 then xs[nat idx := (xs ! nat idx)\<lparr>Value := v, Enabled := e\<rparr>]
      else xs @ [\<lparr>Name = name, Value = v, Enabled = e\<rparr>]) = upsert name v e xs"
proof (induction xs)
  case Nil
  show ?case by simp
next
  case (Cons x xs)
  show ?case
  proof (cases "Name x = name")
    case True
    then show ?thesis by simp
  next
    case False
    note neq = this
    show ?thesis
    proof (cases "name \<in> Name ` set xs")
      case True
      then have nn: "0 \<le> fst (find_from xs name 0)" by (simp add: find_from_nonneg)
      have sh: "fst (find_from xs name 1) = 1 + fst (find_from xs name 0)"
        using find_from_shift [of xs name 1] True by simp
      have "nat (1 + fst (find_from xs name 0)) = Suc (nat (fst (find_from xs name 0)))"
        using nn by simp
      then show ?thesis using Cons.IH neq nn sh by (simp add: Let_def)
    next
      case False
      then have "fst (find_from xs name 0) = -1" "fst (find_from xs name 1) = -1"
        using find_from_shift [of xs name 0] find_from_shift [of xs name 1] by simp_all
      then show ?thesis using Cons.IH neq by (simp add: Let_def)
    qed
  qed
qed


lemma Items_addOrUpdateItem:
  "Items (addOrUpdateItem data name v e) = upsert name v e (Items data)"
  using find_from_upsert [where xs = "Items data" and name = name and v = v and e = e]
  by (auto simp add: addOrUpdateItem_def findItemByName_def Let_def split: if_splits)


lemma snd_find_from: "snd (find_from xs name i) = find (\<lambda>x. Name x = name) xs"
  by (induction xs arbitrary: i) auto

lemma snd_findItemByName:
  "snd (findItemByName data name) = find (\<lambda>x. Name x = name) (Items data)"
  by (simp add: findItemByName_def snd_find_from)

lemma find_upsert_same:
  "find (\<lambda>i. Name i = n) (upsert n v e xs) = Some \<lparr>Name = n, Value = v, Enabled = e\<rparr>"
  by (induction xs) auto

lemma find_upsert_other:
  "n' \<noteq> n \<Longrightarrow> find (\<lambda>i. Name i = n') (upsert n v e xs) = find (\<lambda>i. Name i = n') xs"
  by (induction xs) auto

lemma upsert_fixed:
  "find (\<lambda>i. Name i = n) xs = Some \<lparr>Name = n, Value = v, Enabled = e\<rparr> \<Longrightarrow> upsert n v e xs = xs"
  by (induction xs) (auto split: if_splits)

lemma length_upsert: "length xs \<le> length (upsert n v e xs)"
  by (induction xs) auto

lemma nth_upsert_other:
  "i < length xs \<Longrightarrow> Name (xs ! i) \<noteq> n \<Longrightarrow> upsert n v e xs ! i = xs ! i"
proof (induction xs arbitrary: i)
  case Nil
  then show ?case by simp
next
  case (Cons x xs)
  then show ?case by (cases i) auto
qed

lemma names_upsert: "Name ` set (upsert n v e xs) = insert n (Name ` set xs)"
  by (induction xs) auto

lemma distinct_upsert:
  "distinct (map Name xs) \<Longrightarrow> distinct (map Name (upsert n v e xs))"
  by (induction xs) (auto simp: names_upsert)




section \<open>Lemmas: the two passes of Sync\<close>

lemma sync_step2_items:
  "sync_step2 R keys cache = cache\<lparr>Items := step2_items R keys (Items cache)\<rparr>"
proof (induction keys arbitrary: cache)
  case Nil
  show ?case by simp
next
  case (Cons k keys)
  show ?case
  proof (cases "R k")
    case None
    then show ?thesis using Cons.IH by simp
  next
    case (Some v)
    have "sync_step2 R (k # keys) cache = sync_step2 R keys (addOrUpdateItem cache k v True)"
      using Some by (simp add: addOrUpdateItem_def Let_def)
    then show ?thesis using Some Cons.IH by (simp add: Items_addOrUpdateItem)
  qed
qed

lemma names_step1: "map Name (sync_step1 R xs) = map Name xs"
  by (induction xs) auto

lemma nth_step1:
  "i < length xs \<Longrightarrow> sync_step1 R xs ! i =
     (if R (Name (xs ! i)) = None then (xs ! i)\<lparr>Enabled := False\<rparr> else xs ! i)"
proof (induction xs arbitrary: i)
  case Nil
  then show ?case by simp
next
  case (Cons x xs)
  then show ?case by (cases i) auto
qed

lemma length_step1: "length (sync_step1 R xs) = length xs"
  by (induction xs) auto

lemma find_step2_other:
  "n \<notin> set keys \<Longrightarrow> find (\<lambda>i. Name i = n) (step2_items R keys xs) = find (\<lambda>i. Name i = n) xs"
proof (induction keys arbitrary: xs)
  case Nil
  show ?case by simp
next
  case (Cons k keys)
  then show ?case by (cases "R k") (auto simp: find_upsert_other)
qed

lemma find_step2_visited:
  "distinct keys \<Longrightarrow> n \<in> set keys \<Longrightarrow> R n = Some v \<Longrightarrow>
   find (\<lambda>i. Name i = n) (step2_items R keys xs) = Some \<lparr>Name = n, Value = v, Enabled = True\<rparr>"
proof (induction keys arbitrary: xs)
  case Nil
  then show ?case by simp
next
  case (Cons k keys)
  show ?case
  proof (cases "k = n")
    case True
    then have "n \<notin> set keys" using Cons.prems(1) by simp
    then show ?thesis using True Cons.prems(3)
      by (simp add: find_step2_other find_upsert_same)
  next
    case False
    then have "n \<in> set keys" "distinct keys" using Cons.prems by auto
    then show ?thesis using Cons.IH Cons.prems(3) by (cases "R k") auto
  qed
qed

lemma nth_step2:
  "i < length xs \<Longrightarrow> R (Name (xs ! i)) = None \<Longrightarrow>
   i < length (step2_items R keys xs) \<and> step2_items R keys xs ! i = xs ! i"
proof (induction keys arbitrary: xs)
  case Nil
  then show ?case by simp
next
  case (Cons k keys)
  show ?case
  proof (cases "R k")
    case None
    then show ?thesis using Cons by simp
  next
    case (Some v)
    have neq: "Name (xs ! i) \<noteq> k" using Some Cons.prems(2) by auto
    have a: "i < length (upsert k v True xs)"
      using Cons.prems(1) length_upsert [of xs k v True] by simp
    have b: "upsert k v True xs ! i = xs ! i"
      using Cons.prems(1) neq by (rule nth_upsert_other)
    show ?thesis using Cons.IH [of "upsert k v True xs"] a b Cons.prems(2) Some by simp
  qed
qed

lemma names_step2:
  "Name ` set (step2_items R keys xs) = Name ` set xs \<union> (set keys \<inter> dom R)"
proof (induction keys arbitrary: xs)
  case Nil
  show ?case by simp
next
  case (Cons k keys)
  show ?case by (cases "R k") (auto simp: Cons.IH names_upsert)
qed


lemma upsert_keeps_disabled:
  "\<forall>x \<in> set xs. R (Name x) = None \<longrightarrow> \<not> Enabled x \<Longrightarrow> R n = Some v \<Longrightarrow>
   \<forall>x \<in> set (upsert n v e xs). R (Name x) = None \<longrightarrow> \<not> Enabled x"
  by (induction xs) auto

lemma step2_keeps_disabled:
  "\<forall>x \<in> set xs. R (Name x) = None \<longrightarrow> \<not> Enabled x \<Longrightarrow>
   \<forall>x \<in> set (step2_items R keys xs). R (Name x) = None \<longrightarrow> \<not> Enabled x"
proof (induction keys arbitrary: xs)
  case Nil
  then show ?case by simp
next
  case (Cons k keys)
  show ?case
  proof (cases "R k")
    case None
    then show ?thesis using Cons by simp
  next
    case (Some v)
    show ?thesis using Cons.IH [OF upsert_keeps_disabled [OF Cons.prems Some]] Some by simp
  qed
qed

lemma step1_disables:
  "\<forall>x \<in> set (sync_step1 R xs). R (Name x) = None \<longrightarrow> \<not> Enabled x"
  by (induction xs) auto

lemma step1_fixed:
  "\<forall>x \<in> set xs. R (Name x) = None \<longrightarrow> \<not> Enabled x \<Longrightarrow> sync_step1 R xs = xs"
  by (induction xs) auto

lemma step2_fixed:
  "\<forall>k \<in> set keys. \<forall>v. R k = Some v \<longrightarrow>
      find (\<lambda>i. Name i = k) xs = Some \<lparr>Name = k, Value = v, Enabled = True\<rparr> \<Longrightarrow>
   step2_items R keys xs = xs"
proof (induction keys)
  case Nil
  show ?case by simp
next
  case (Cons k keys)
  then show ?case by (cases "R k") (auto simp: upsert_fixed)
qed

section \<open>Lemmas: the registry snapshot and the effect of Sync on the world\<close>

lemma read_registryItems_apply:
  "read_registryItems w names m n =
     (if n \<in> set names
      then (case GetStringValue w n of Inr v \<Rightarrow> Some v | Inl err \<Rightarrow> m n)
      else m n)"
proof (induction names arbitrary: m)
  case Nil
  show ?case by simp
next
  case (Cons a names)
  show ?case by (cases "GetStringValue w a") (auto simp: Cons.IH split: sum.splits)
qed

lemma registry_snapshot_apply:
  "registry_snapshot w n = (case GetStringValue w n of Inr v \<Rightarrow> Some v | Inl err \<Rightarrow> None)"
proof (cases "n \<in> set (map fst (run_values w))")
  case True
  then show ?thesis by (simp add: registry_snapshot_def read_registryItems_apply)
next
  case False
  then have "map_of (run_values w) n = None" by (simp add: map_of_eq_None_iff)
  then have "GetStringValue w n = Inl ErrNotExist" by (simp add: GetStringValue_def)
  then show ?thesis using False by (simp add: registry_snapshot_def read_registryItems_apply)
qed

lemma registry_snapshot_Some:
  "registry_snapshot w n = Some v \<longleftrightarrow> GetStringValue w n = Inr v"
  by (cases "GetStringValue w n") (auto simp: registry_snapshot_apply)

lemma registry_snapshot_None:
  "registry_snapshot w n = None \<longleftrightarrow> (\<forall>v. GetStringValue w n \<noteq> Inr v)"
  by (cases "GetStringValue w n") (auto simp: registry_snapshot_apply)

lemma sync_saves:
  assumes "loadCache w = Inr C" and "open_query_ok w" and "read_names_ok w"
  shows "syncCacheFromRegistry keys w =
           snd (saveCache
                 (C\<lparr>Items := step2_items (registry_snapshot w) keys
                                (sync_step1 (registry_snapshot w) (Items C))\<rparr>) w)"
  using assms
  by (simp add: syncCacheFromRegistry_def OpenKey_def ReadValueNames_def Let_def
      sync_step2_items registry_snapshot_def)

lemma sync_aborts:
  "loadCache w = Inl e \<or> \<not> open_query_ok w \<or> \<not> read_names_ok w \<Longrightarrow>
   syncCacheFromRegistry keys w = w"
  by (auto simp add: syncCacheFromRegistry_def OpenKey_def ReadValueNames_def
      split: sum.splits)

lemma snapshot_delete_unreadable:
  assumes "GetStringValue w n = Inl e"
  shows "registry_snapshot (w\<lparr>raw_values := AList.delete n (run_values w)\<rparr>) = registry_snapshot w"
proof
  fix m
  show "registry_snapshot (w\<lparr>raw_values := AList.delete n (run_values w)\<rparr>) m = registry_snapshot w m"
  proof (cases "m = n")
    case True
    have "GetStringValue (w\<lparr>raw_values := AList.delete n (run_values w)\<rparr>) n = Inl ErrNotExist"
      by (simp add: GetStringValue_def run_values_delete delete_conv')
    then show ?thesis using True assms by (simp add: registry_snapshot_apply)
  next
    case False
    then have "GetStringValue (w\<lparr>raw_values := AList.delete n (run_values w)\<rparr>) m = GetStringValue w m"
      by (simp add: GetStringValue_def run_values_delete)
    then show ?thesis by (simp add: registry_snapshot_apply)
  qed
qed

lemma example_world_visits: "range_visits (registry_snapshot example_world) [''Foo'']"
  by (auto simp add: range_visits_def registry_snapshot_def example_world_def GetStringValue_def
      eval_defs split: if_splits)



section \<open>Lemmas: the registry writers and the handlers\<close>

lemma AddCommandToStartup_Inr:
  "AddCommandToStartup c n w = Inr w' \<longleftrightarrow>
     open_set_ok w \<and> set_value_ok w \<and>
     w' = w\<lparr>raw_values := AList.update (json_string n) (SZ (json_string c)) (run_values w)\<rparr>"
  by (auto simp add: AddCommandToStartup_def OpenKey_def SetStringValue_def)


lemma RemoveFromStartup_Inr:
  "RemoveFromStartup n w = Inr w' \<longleftrightarrow>
     open_set_ok w \<and> map_of (run_values w) n \<noteq> None \<and> delete_value_ok w \<and>
     w' = w\<lparr>raw_values := AList.delete n (run_values w)\<rparr>"
  by (auto simp add: RemoveFromStartup_def OpenKey_def DeleteValue_def)

lemma RemoveFromStartup_ItemNotExist:
  "RemoveFromStartup n w = Inl ItemNotExist \<longleftrightarrow> open_set_ok w \<and> map_of (run_values w) n = None"
  by (auto simp add: RemoveFromStartup_def OpenKey_def DeleteValue_def)

lemma GetStringValue_ErrNotExist:
  "GetStringValue w n = Inl ErrNotExist \<longleftrightarrow> map_of (run_values w) n = None"
  by (auto simp add: GetStringValue_def split: option.splits reg_data.splits)

lemma showListWithBack_True:
  "showListWithBack items choice = (idx, True) \<Longrightarrow> 0 \<le> idx \<and> nat idx < length items"
  by (auto simp add: showListWithBack_def split: if_splits menu_input.splits)

lemma handleDisable_selected:
  assumes "loadCache w = Inr C" and "showListWithBack (enabledItems C) choice = (idx, True)"
    and "enabledItems C ! nat idx = \<lparr>ListItem.Name = n, ListItem.Value = v\<rparr>"
  shows "handleDisable choice True w =
           (case RemoveFromStartup n w of
              Inl err \<Rightarrow> (Failed err, w)
            | Inr w' \<Rightarrow> (Succeeded, snd (saveCache (addOrUpdateItem C n v False) w')))"
  using assms by (simp add: handleDisable_def Let_def split: sum.splits)

lemma handleEnable_selected:
  assumes "loadCache w = Inr C" and "showListWithBack (disabledItems C) choice = (idx, True)"
    and "disabledItems C ! nat idx = \<lparr>ListItem.Name = n, ListItem.Value = v\<rparr>"
  shows "handleEnable choice True w =
           (case AddCommandToStartup v n w of
              Inl err \<Rightarrow> (Failed err, w)
            | Inr w' \<Rightarrow> (Succeeded, snd (saveCache (addOrUpdateItem C n v True) w')))"
  using assms by (simp add: handleEnable_def Let_def split: sum.splits)

lemma enabledItems_nth:
  assumes "i < length (enabledItems C)"
    and "enabledItems C ! i = \<lparr>ListItem.Name = n, ListItem.Value = v\<rparr>"
  shows "\<lparr>Name = n, Value = v, Enabled = True\<rparr> \<in> set (Items C)"
proof -
  have "\<lparr>ListItem.Name = n, ListItem.Value = v\<rparr> \<in> set (enabledItems C)"
    using assms by (metis nth_mem)
  then obtain item where "item \<in> set (Items C)" "Enabled item" "Name item = n" "Value item = v"
    by (auto simp add: enabledItems_def)
  moreover from this have "item = \<lparr>Name = n, Value = v, Enabled = True\<rparr>" by simp
  ultimately show ?thesis by simp
qed

lemma disabledItems_nth:
  assumes "i < length (disabledItems C)"
    and "disabledItems C ! i = \<lparr>ListItem.Name = n, ListItem.Value = v\<rparr>"
  shows "\<lparr>Name = n, Value = v, Enabled = False\<rparr> \<in> set (Items C)"
proof -
  have "\<lparr>ListItem.Name = n, ListItem.Value = v\<rparr> \<in> set (disabledItems C)"
    using assms by (metis nth_mem)
  then obtain item where "item \<in> set (Items C)" "\<not> Enabled item" "Name item = n" "Value item = v"
    by (auto simp add: disabledItems_def)
  moreover from this have "item = \<lparr>Name = n, Value = v, Enabled = False\<rparr>" by simp
  ultimately show ?thesis by simp
qed

lemma handleAddToStartup_failed:
  "AddToStartup exePath appName w = Inl e \<Longrightarrow>
   handleAddToStartup exePath appName overwrite confirm w = (Failed e, w) \<or>
   handleAddToStartup exePath appName overwrite confirm w = (Cancelled, w)"
  by (simp add: handleAddToStartup_def Let_def)

lemma synced_world_cache: "cache_file synced_world = FileDoc synced_cache"
  by (simp add: synced_world_def synced_cache_def)

lemma synced_cache_valid: "json_doc synced_cache = synced_cache"
  by (simp add: eval_defs)

section \<open>Lemmas: documents with unique names\<close>

lemma find_distinct:
  "distinct (map Name xs) \<Longrightarrow> x \<in> set xs \<Longrightarrow> find (\<lambda>i. Name i = Name x) xs = Some x"
  by (induction xs) auto

lemma upsert_upsert: "upsert n v e (upsert n v' e' xs) = upsert n v e xs"
  by (induction xs) auto

lemma find_Some_mem: "find P xs = Some x \<Longrightarrow> x \<in> set xs"
  by (induction xs) (auto split: if_splits)

lemma names_unique_member:
  "distinct (map Name xs) \<Longrightarrow> x \<in> set xs \<Longrightarrow> y \<in> set xs \<Longrightarrow> Name x = Name y \<Longrightarrow> x = y"
  using find_distinct by (metis option.inject)






section \<open>Lemmas: documents of valid UTF-8 strings\<close>






lemma valid_upsert:
  "\<forall>x \<in> set xs. json_item x = x \<Longrightarrow> json_string n = n \<Longrightarrow> json_string v = v \<Longrightarrow>
   \<forall>x \<in> set (upsert n v e xs). json_item x = x"
  by (induction xs) (auto simp add: json_item_fixed)


lemma valid_step1:
  "\<forall>x \<in> set xs. json_item x = x \<Longrightarrow> \<forall>x \<in> set (sync_step1 R xs). json_item x = x"
  by (induction xs) (auto simp add: json_item_fixed)

lemma valid_step2:
  "\<forall>x \<in> set xs. json_item x = x \<Longrightarrow>
   \<forall>n v. R n = Some v \<longrightarrow> json_string n = n \<and> json_string v = v \<Longrightarrow>
   \<forall>x \<in> set (step2_items R keys xs). json_item x = x"
proof (induction keys arbitrary: xs)
  case Nil
  then show ?case by simp
next
  case (Cons k keys)
  show ?case
  proof (cases "R k")
    case None
    then show ?thesis using Cons by simp
  next
    case (Some v)
    then have "json_string k = k" "json_string v = v" using Cons.prems(2) by auto
    then have "\<forall>x \<in> set (upsert k v True xs). json_item x = x"
      using Cons.prems(1) by (intro valid_upsert)
    then show ?thesis using Cons.IH Cons.prems(2) Some by simp
  qed
qed

lemma registry_snapshot_valid:
  "registry_snapshot w n = Some v \<Longrightarrow> json_string n = n \<and> json_string v = v"
  using GetStringValue_valid by (simp add: registry_snapshot_Some)

lemma sync_doc_valid:
  assumes "loadCache w = Inr C"
  shows "json_doc (C\<lparr>Items := step2_items (registry_snapshot w) keys
                                (sync_step1 (registry_snapshot w) (Items C))\<rparr>) =
         C\<lparr>Items := step2_items (registry_snapshot w) keys
                                (sync_step1 (registry_snapshot w) (Items C))\<rparr>"
proof -
  have "\<forall>x \<in> set (Items C). json_item x = x"
    using loadCache_valid [OF assms] by (simp add: json_doc_fixed)
  then have "\<forall>x \<in> set (sync_step1 (registry_snapshot w) (Items C)). json_item x = x"
    by (rule valid_step1)
  then have "\<forall>x \<in> set (step2_items (registry_snapshot w) keys
                (sync_step1 (registry_snapshot w) (Items C))). json_item x = x"
    using registry_snapshot_valid by (intro valid_step2) blast+
  then show ?thesis by (simp add: json_doc_fixed)
qed

lemma addOrUpdateItem_valid:
  "json_doc C = C \<Longrightarrow> json_string n = n \<Longrightarrow> json_string v = v \<Longrightarrow>
   json_doc (addOrUpdateItem C n v e) = addOrUpdateItem C n v e"
  by (simp add: json_doc_fixed Items_addOrUpdateItem valid_upsert)


lemma member_valid:
  "json_doc C = C \<Longrightarrow> \<lparr>Name = n, Value = v, Enabled = e\<rparr> \<in> set (Items C) \<Longrightarrow>
   json_string n = n \<and> json_string v = v"
  by (auto simp add: json_doc_fixed json_item_fixed)

section \<open>Lemmas: unique names in the cache file\<close>

















section \<open>The claims\<close>

subsection \<open>C1: what Sync establishes\<close>

text \<open>
  Claim C1. Let Sync run on a world whose cache loads to the document \<open>C\<close>, whose Run
  key can be opened and enumerated, and where the cache can be saved; the step-2 loop
  visits the keys of the snapshot in any order. Then the saved document \<open>C'\<close> is such
  that every name whose string value the registry holds is found in \<open>C'\<close> by name, as
  an item with \<open>Enabled = True\<close> and the registry's raw value as its \<open>Value\<close>; and
  every item of \<open>C\<close> whose name the snapshot does not hold is in \<open>C'\<close>, at the same
  position, with \<open>Enabled = False\<close> and its \<open>Value\<close> unchanged.
\<close>

theorem sync_invariant_preservation:
  assumes load: "loadCache w = Inr C"
    and reg: "open_query_ok w" "read_names_ok w"
    and save: "save_mode w = SaveOk"
    and keys: "range_visits (registry_snapshot w) keys"
  shows "\<exists>C'. cache_file (syncCacheFromRegistry keys w) = FileDoc C' \<and>
           (\<forall>name v. GetStringValue w name = Inr v \<longrightarrow>
              snd (findItemByName C' name) = Some \<lparr>Name = name, Value = v, Enabled = True\<rparr>) \<and>
           (\<forall>i < length (Items C). (\<forall>v. GetStringValue w (Name (Items C ! i)) \<noteq> Inr v) \<longrightarrow>
              i < length (Items C') \<and> Items C' ! i = (Items C ! i)\<lparr>Enabled := False\<rparr>)"
proof -
  let ?R = "registry_snapshot w"
  let ?xs = "step2_items ?R keys (sync_step1 ?R (Items C))"
  let ?C' = "C\<lparr>Items := ?xs\<rparr>"
  have saved: "cache_file (syncCacheFromRegistry keys w) = FileDoc ?C'"
    using sync_saves [OF load reg] save sync_doc_valid [OF load, of keys]
    by (simp add: saveCache_def)
  have dk: "distinct keys" and sk: "set keys = dom ?R"
    using keys by (simp_all add: range_visits_def)
  have present: "snd (findItemByName ?C' name) = Some \<lparr>Name = name, Value = v, Enabled = True\<rparr>"
    if "GetStringValue w name = Inr v" for name v
  proof -
    have r: "?R name = Some v" using that by (simp add: registry_snapshot_Some)
    then have "name \<in> set keys" using sk by auto
    then show ?thesis
      using find_step2_visited [where R = "?R" and keys = keys and n = name and v = v] dk r
      by (simp add: snd_findItemByName)
  qed
  have absent: "i < length ?xs \<and> ?xs ! i = (Items C ! i)\<lparr>Enabled := False\<rparr>"
    if i: "i < length (Items C)" and no: "\<forall>v. GetStringValue w (Name (Items C ! i)) \<noteq> Inr v" for i
  proof -
    have r: "?R (Name (Items C ! i)) = None" using no by (simp add: registry_snapshot_None)
    have s1: "sync_step1 ?R (Items C) ! i = (Items C ! i)\<lparr>Enabled := False\<rparr>"
      using i r by (simp add: nth_step1)
    have "i < length (sync_step1 ?R (Items C))" using i by (simp add: length_step1)
    moreover have "?R (Name (sync_step1 ?R (Items C) ! i)) = None" using s1 r by simp
    ultimately show ?thesis using nth_step2 [of i "sync_step1 ?R (Items C)" ?R keys] s1 by simp
  qed
  show ?thesis using saved present absent by auto
qed

text \<open>
  The theorem at \<open>example_world\<close>: the registry holds \<open>Foo\<close>, the cache holds \<open>Bar\<close>.
\<close>

theorem sync_invariant_preservation_witness:
  "loadCache example_world = Inr example_cache \<and>
   open_query_ok example_world \<and> read_names_ok example_world \<and>
   save_mode example_world = SaveOk \<and>
   range_visits (registry_snapshot example_world) [''Foo''] \<and>
   GetStringValue example_world ''Foo'' = Inr ''foo.exe'' \<and>
   (\<forall>v. GetStringValue example_world (Name (Items example_cache ! 0)) \<noteq> Inr v) \<and>
   (\<exists>C'. cache_file (syncCacheFromRegistry [''Foo''] example_world) = FileDoc C' \<and>
      snd (findItemByName C' ''Foo'') = Some \<lparr>Name = ''Foo'', Value = ''foo.exe'', Enabled = True\<rparr> \<and>
      Items C' ! 0 = \<lparr>Name = ''Bar'', Value = ''bar.exe'', Enabled = False\<rparr>)"
proof -
  have h1: "loadCache example_world = Inr example_cache"
    by (simp add: loadCache_def example_world_def eval_defs)
  have h2: "open_query_ok example_world" "read_names_ok example_world"
    by (simp_all add: example_world_def eval_defs)
  have h3: "save_mode example_world = SaveOk" by (simp add: example_world_def eval_defs)
  have h4: "GetStringValue example_world ''Foo'' = Inr ''foo.exe''"
    by (simp add: GetStringValue_def example_world_def eval_defs)
  have h5: "\<forall>v. GetStringValue example_world (Name (Items example_cache ! 0)) \<noteq> Inr v"
    by (simp add: GetStringValue_def example_world_def eval_defs)
  have h6: "0 < length (Items example_cache)"
    "(Items example_cache ! 0)\<lparr>Enabled := False\<rparr> = \<lparr>Name = ''Bar'', Value = ''bar.exe'', Enabled = False\<rparr>"
    by (simp_all add: eval_defs)
  from sync_invariant_preservation [OF h1 h2 h3 example_world_visits]
  obtain C' where c: "cache_file (syncCacheFromRegistry [''Foo''] example_world) = FileDoc C'"
    and p: "\<forall>name v. GetStringValue example_world name = Inr v \<longrightarrow>
              snd (findItemByName C' name) = Some \<lparr>Name = name, Value = v, Enabled = True\<rparr>"
    and q: "\<forall>i < length (Items example_cache).
              (\<forall>v. GetStringValue example_world (Name (Items example_cache ! i)) \<noteq> Inr v) \<longrightarrow>
              i < length (Items C') \<and> Items C' ! i = (Items example_cache ! i)\<lparr>Enabled := False\<rparr>"
    by blast
  have "snd (findItemByName C' ''Foo'') = Some \<lparr>Name = ''Foo'', Value = ''foo.exe'', Enabled = True\<rparr>"
    using p h4 by blast
  moreover have "Items C' ! 0 = \<lparr>Name = ''Bar'', Value = ''bar.exe'', Enabled = False\<rparr>"
    using q h5 h6 by metis
  ultimately show ?thesis using h1 h2 h3 h4 h5 example_world_visits c by blast
qed

subsection \<open>C2: Sync is idempotent\<close>

text \<open>
  Claim C2. A second Sync, run on the world the first one left and with the registry
  unchanged, changes nothing: the world, and with it the cache file (the same items, in
  the same order, with the same flags and commands), is the one the first run produced,
  whatever the orders in which the two runs range over the snapshot.
\<close>

theorem sync_idempotent:
  assumes k1: "range_visits (registry_snapshot w) keys1"
    and k2: "range_visits (registry_snapshot w) keys2"
  shows "syncCacheFromRegistry keys2 (syncCacheFromRegistry keys1 w) = syncCacheFromRegistry keys1 w"
proof (cases "\<exists>C. loadCache w = Inr C \<and> open_query_ok w \<and> read_names_ok w")
  case False
  then have "loadCache w = Inl (projl (loadCache w)) \<or> \<not> open_query_ok w \<or> \<not> read_names_ok w"
    by (cases "loadCache w") auto
  then have "syncCacheFromRegistry keys w = w" for keys by (rule sync_aborts)
  then show ?thesis by simp
next
  case True
  then obtain C where load: "loadCache w = Inr C" and reg: "open_query_ok w" "read_names_ok w"
    by blast
  let ?R = "registry_snapshot w"
  let ?xs = "step2_items ?R keys1 (sync_step1 ?R (Items C))"
  let ?C1 = "C\<lparr>Items := ?xs\<rparr>"
  let ?w1 = "syncCacheFromRegistry keys1 w"
  have w1: "?w1 = snd (saveCache ?C1 w)" using load reg by (rule sync_saves)
  show ?thesis
  proof (cases "save_mode w")
    case CreateFails
    then have "syncCacheFromRegistry keys w = w" for keys
      using sync_saves [OF load reg] by (simp add: saveCache_def)
    then show ?thesis by simp
  next
    case EncodeFails
    then have eq: "?w1 = w\<lparr>cache_file := FileCorrupt\<rparr>" using w1 by (simp add: saveCache_def)
    have "loadCache (w\<lparr>cache_file := FileCorrupt\<rparr>) = Inl CacheDecodeFailed"
      by (simp add: loadCache_def)
    then have "syncCacheFromRegistry keys2 (w\<lparr>cache_file := FileCorrupt\<rparr>) = w\<lparr>cache_file := FileCorrupt\<rparr>"
      using sync_aborts by blast
    then show ?thesis using eq by simp
  next
    case SaveOk
    have valid: "json_doc ?C1 = ?C1" using load by (rule sync_doc_valid)
    have eq: "?w1 = w\<lparr>cache_file := FileDoc ?C1\<rparr>"
      using w1 SaveOk valid by (simp add: saveCache_def)
    let ?w' = "w\<lparr>cache_file := FileDoc ?C1\<rparr>"
    have load': "loadCache ?w' = Inr ?C1" using valid by (simp add: loadCache_def)
    have reg': "open_query_ok ?w'" "read_names_ok ?w'" using reg by simp_all
    have R': "registry_snapshot ?w' = ?R"
      by (simp add: registry_snapshot_def fun_eq_iff read_registryItems_apply GetStringValue_def
          run_values_cache_file)
    have dis: "\<forall>x \<in> set ?xs. ?R (Name x) = None \<longrightarrow> \<not> Enabled x"
      using step1_disables by (rule step2_keeps_disabled)
    have s1: "sync_step1 ?R ?xs = ?xs" using dis by (rule step1_fixed)
    have dk: "distinct keys1" and sk1: "set keys1 = dom ?R" and sk2: "set keys2 = dom ?R"
      using k1 k2 by (simp_all add: range_visits_def)
    have "\<forall>k \<in> set keys2. \<forall>v. ?R k = Some v \<longrightarrow>
            find (\<lambda>i. Name i = k) ?xs = Some \<lparr>Name = k, Value = v, Enabled = True\<rparr>"
      using find_step2_visited [where R = "?R" and keys = keys1] dk sk1 sk2 by auto
    then have s2: "step2_items ?R keys2 ?xs = ?xs" by (rule step2_fixed)
    have "syncCacheFromRegistry keys2 ?w' = snd (saveCache ?C1 ?w')"
      using sync_saves [OF load' reg', of keys2] s1 s2 by (simp add: R')
    also have "\<dots> = ?w'" using SaveOk valid by (simp add: saveCache_def)
    finally show ?thesis using eq by simp
  qed
qed

text \<open>
  The theorem at \<open>example_world\<close>, with the document the first run saves.
\<close>

theorem sync_idempotent_witness:
  "range_visits (registry_snapshot example_world) [''Foo''] \<and>
   syncCacheFromRegistry [''Foo''] (syncCacheFromRegistry [''Foo''] example_world) =
     syncCacheFromRegistry [''Foo''] example_world \<and>
   cache_file (syncCacheFromRegistry [''Foo''] example_world) =
     FileDoc \<lparr>Items = [\<lparr>Name = ''Bar'', Value = ''bar.exe'', Enabled = False\<rparr>,
                       \<lparr>Name = ''Odd'', Value = ''odd.exe'', Enabled = False\<rparr>,
                       \<lparr>Name = ''Foo'', Value = ''foo.exe'', Enabled = True\<rparr>]\<rparr>"
proof -
  have "cache_file (syncCacheFromRegistry [''Foo''] example_world) =
     FileDoc \<lparr>Items = [\<lparr>Name = ''Bar'', Value = ''bar.exe'', Enabled = False\<rparr>,
                       \<lparr>Name = ''Odd'', Value = ''odd.exe'', Enabled = False\<rparr>,
                       \<lparr>Name = ''Foo'', Value = ''foo.exe'', Enabled = True\<rparr>]\<rparr>"
    by (simp add: syncCacheFromRegistry_def loadCache_def OpenKey_def ReadValueNames_def
        GetStringValue_def saveCache_def findItemByName_def example_world_def eval_defs)
  then show ?thesis
    using example_world_visits sync_idempotent [OF example_world_visits example_world_visits]
    by simp
qed

subsection \<open>C3: loading an absent or a damaged cache file\<close>

text \<open>
  Claim C3 says that a cache file that is absent or does not parse is treated as an
  empty document, so that Sync proceeds and overwrites a damaged file. For an absent file
  this is what \<open>loadCache\<close> does. For a file whose content does not decode it is not:
  \<open>loadCache\<close> returns the decoder's error, and \<open>syncCacheFromRegistry\<close> returns at
  once, leaving the damaged file as it is.
\<close>

theorem corrupt_cache_not_treated_as_empty:
  "loadCache corrupt_world = Inl CacheDecodeFailed \<and>
   syncCacheFromRegistry [''Foo''] corrupt_world = corrupt_world \<and>
   cache_file (syncCacheFromRegistry [''Foo''] corrupt_world) = FileCorrupt"
  by (simp add: loadCache_def syncCacheFromRegistry_def corrupt_world_def eval_defs)

text \<open>
  Claim C3, amended. An absent cache file loads as the empty document, and Sync then
  proceeds and saves the document built from the registry alone. A cache file that
  exists but cannot be opened or decoded makes \<open>loadCache\<close> return an error, and Sync
  then returns without changing anything: the file is not overwritten.
\<close>

theorem load_absent_empty_damaged_aborts:
  "(cache_file w = FileAbsent \<longrightarrow> loadCache w = Inr \<lparr>Items = []\<rparr>) \<and>
   (cache_file w = FileAbsent \<and> open_query_ok w \<and> read_names_ok w \<and> save_mode w = SaveOk \<longrightarrow>
      cache_file (syncCacheFromRegistry keys w) =
        FileDoc (sync_step2 (registry_snapshot w) keys \<lparr>Items = []\<rparr>)) \<and>
   (cache_file w = FileCorrupt \<or> cache_file w = FileUnreadable \<longrightarrow>
      (\<exists>e. loadCache w = Inl e) \<and> syncCacheFromRegistry keys w = w)"
proof -
  have a: "loadCache w = Inr \<lparr>Items = []\<rparr>" if "cache_file w = FileAbsent"
    using that by (simp add: loadCache_def)
  have b: "cache_file (syncCacheFromRegistry keys w) =
        FileDoc (sync_step2 (registry_snapshot w) keys \<lparr>Items = []\<rparr>)"
    if "cache_file w = FileAbsent" "open_query_ok w" "read_names_ok w" "save_mode w = SaveOk"
    using sync_saves [OF a [OF that(1)] that(2,3), of keys] that(4)
      sync_doc_valid [OF a [OF that(1)], of keys]
    by (simp add: saveCache_def sync_step2_items)
  have c: "(\<exists>e. loadCache w = Inl e) \<and> syncCacheFromRegistry keys w = w"
    if bad: "cache_file w = FileCorrupt \<or> cache_file w = FileUnreadable"
  proof -
    obtain e where e: "loadCache w = Inl e" using bad by (auto simp: loadCache_def)
    then show ?thesis using sync_aborts [of w e keys] by simp
  qed
  show ?thesis using a b c by blast
qed

text \<open>
  The theorem at a world without a cache file and at one with a damaged file.
\<close>

theorem load_absent_empty_damaged_aborts_witness:
  "cache_file absent_world = FileAbsent \<and> open_query_ok absent_world \<and>
   read_names_ok absent_world \<and> save_mode absent_world = SaveOk \<and>
   loadCache absent_world = Inr \<lparr>Items = []\<rparr> \<and>
   cache_file (syncCacheFromRegistry [''Foo''] absent_world) =
     FileDoc (sync_step2 (registry_snapshot absent_world) [''Foo''] \<lparr>Items = []\<rparr>) \<and>
   cache_file corrupt_world = FileCorrupt \<and>
   (\<exists>e. loadCache corrupt_world = Inl e) \<and>
   syncCacheFromRegistry [''Foo''] corrupt_world = corrupt_world"
proof -
  have h: "cache_file absent_world = FileAbsent" "open_query_ok absent_world"
    "read_names_ok absent_world" "save_mode absent_world = SaveOk"
    by (simp_all add: absent_world_def example_world_def eval_defs)
  have k: "cache_file corrupt_world = FileCorrupt" by (simp add: corrupt_world_def eval_defs)
  show ?thesis
    using h k load_absent_empty_damaged_aborts [of absent_world "[''Foo'']"]
      load_absent_empty_damaged_aborts [of corrupt_world "[''Foo'']"]
    by simp
qed

subsection \<open>C4: Disable when the registry value is already gone\<close>

text \<open>
  Claim C4 says that disabling an enabled item whose registry value was removed
  externally still succeeds and marks the item disabled. The code does not:
  \<open>RemoveFromStartup\<close> turns \<open>ErrNotExist\<close> into an error of its own, and
  \<open>handleDisable\<close> updates the cache only when \<open>RemoveFromStartup\<close> returned no error.
  In \<open>removed_world\<close> the cache holds the enabled item \<open>Foo\<close> and the registry is empty.
\<close>

theorem disable_missing_value_fails:
  "GetStringValue removed_world ''Foo'' = Inl ErrNotExist \<and>
   loadCache removed_world = Inr \<lparr>Items = [\<lparr>Name = ''Foo'', Value = ''foo.exe'', Enabled = True\<rparr>]\<rparr> \<and>
   handleDisable (Number 1) True removed_world = (Failed ItemNotExist, removed_world)"
  by (simp add: GetStringValue_def loadCache_def handleDisable_def showListWithBack_def
      enabledItems_def RemoveFromStartup_def OpenKey_def DeleteValue_def removed_world_def eval_defs)

text \<open>
  Claim C4, amended. When the user disables the enabled cache item \<open>n\<close> and the
  registry (which can be opened for writing) has no value named \<open>n\<close>, the operation
  fails: \<open>RemoveFromStartup\<close> returns its item-does-not-exist error, \<open>handleDisable\<close>
  reports the failure, and nothing is changed: the cache item \<open>n\<close> keeps
  \<open>Enabled = True\<close> and its command.
\<close>

theorem disable_missing_value_reports_error:
  assumes load: "loadCache w = Inr C"
    and sel: "showListWithBack (enabledItems C) choice = (idx, True)"
      "enabledItems C ! nat idx = \<lparr>ListItem.Name = n, ListItem.Value = v\<rparr>"
    and opens: "open_set_ok w"
    and missing: "GetStringValue w n = Inl ErrNotExist"
  shows "RemoveFromStartup n w = Inl ItemNotExist \<and>
         handleDisable choice True w = (Failed ItemNotExist, w) \<and>
         \<lparr>Name = n, Value = v, Enabled = True\<rparr> \<in> set (Items C)"
proof -
  have r: "RemoveFromStartup n w = Inl ItemNotExist"
    using opens missing by (simp add: RemoveFromStartup_ItemNotExist GetStringValue_ErrNotExist)
  have "nat idx < length (enabledItems C)" using sel(1) by (simp add: showListWithBack_True)
  then have "\<lparr>Name = n, Value = v, Enabled = True\<rparr> \<in> set (Items C)"
    using sel(2) by (rule enabledItems_nth)
  then show ?thesis using r handleDisable_selected [OF load sel] by simp
qed

text \<open>
  The theorem at \<open>removed_world\<close>.
\<close>

theorem disable_missing_value_reports_error_witness:
  "loadCache removed_world = Inr \<lparr>Items = [\<lparr>Name = ''Foo'', Value = ''foo.exe'', Enabled = True\<rparr>]\<rparr> \<and>
   showListWithBack (enabledItems \<lparr>Items = [\<lparr>Name = ''Foo'', Value = ''foo.exe'', Enabled = True\<rparr>]\<rparr>)
     (Number 1) = (0, True) \<and>
   enabledItems \<lparr>Items = [\<lparr>Name = ''Foo'', Value = ''foo.exe'', Enabled = True\<rparr>]\<rparr> ! nat 0 =
     \<lparr>ListItem.Name = ''Foo'', ListItem.Value = ''foo.exe''\<rparr> \<and>
   open_set_ok removed_world \<and>
   GetStringValue removed_world ''Foo'' = Inl ErrNotExist \<and>
   RemoveFromStartup ''Foo'' removed_world = Inl ItemNotExist \<and>
   handleDisable (Number 1) True removed_world = (Failed ItemNotExist, removed_world)"
proof -
  let ?C = "\<lparr>Items = [\<lparr>Name = ''Foo'', Value = ''foo.exe'', Enabled = True\<rparr>]\<rparr>"
  have h1: "loadCache removed_world = Inr ?C" by (simp add: loadCache_def removed_world_def eval_defs)
  have h2: "showListWithBack (enabledItems ?C) (Number 1) = (0, True)"
    by (simp add: showListWithBack_def enabledItems_def)
  have h3: "enabledItems ?C ! nat 0 = \<lparr>ListItem.Name = ''Foo'', ListItem.Value = ''foo.exe''\<rparr>"
    by (simp add: enabledItems_def)
  have h4: "open_set_ok removed_world" by (simp add: removed_world_def eval_defs)
  have h5: "GetStringValue removed_world ''Foo'' = Inl ErrNotExist"
    by (simp add: GetStringValue_def removed_world_def eval_defs)
  show ?thesis
    using h1 h2 h3 h4 h5 disable_missing_value_reports_error [OF h1 h2 h3 h4 h5] by simp
qed

subsection \<open>C5: AddProgram fails without touching the cache\<close>

text \<open>
  Claim C5 says that \<open>AddToStartup\<close> fails with a not-found error whenever the path does
  not resolve to an existing file. The guard of \<open>AddToStartup\<close> is \<open>os.IsNotExist\<close> on the
  error of \<open>os.Stat\<close>: it rejects a path at which nothing exists, and nothing else. In
  \<open>directory_world\<close> the path is a directory, not a file; \<open>AddToStartup\<close> writes the
  registry value and \<open>handleAddToStartup\<close> adds the cache entry.
\<close>

theorem add_program_accepts_directory:
  "stat directory_world ''dir'' = StatDir \<and>
   AddToStartup ''dir'' ''dir'' directory_world =
     Inr (directory_world\<lparr>raw_values :=
            [(''Foo'', SZ ''foo.exe''), (''Odd'', NonString), (''dir'', SZ (quoted ''dir''))]\<rparr>) \<and>
   fst (handleAddToStartup ''dir'' ''dir'' True True directory_world) = Succeeded \<and>
   cache_file (snd (handleAddToStartup ''dir'' ''dir'' True True directory_world)) =
     FileDoc \<lparr>Items = [\<lparr>Name = ''Bar'', Value = ''bar.exe'', Enabled = True\<rparr>,
                       \<lparr>Name = ''Odd'', Value = ''odd.exe'', Enabled = True\<rparr>,
                       \<lparr>Name = ''dir'', Value = quoted ''dir'', Enabled = True\<rparr>]\<rparr>"
  by (simp add: handleAddToStartup_def AddToStartup_def OpenKey_def GetStringValue_def
      SetStringValue_def loadCache_def saveCache_def addOrUpdateItem_def findItemByName_def
      quoted_def directory_world_def example_world_def eval_defs)

text \<open>
  Claim C5, amended. \<open>AddToStartup\<close> fails with the file-does-not-exist error when
  \<open>os.Stat\<close> reports that nothing exists at the absolute path, and with the set-value
  error when the registry write fails; a path at which something exists that is not a
  file, or at which \<open>os.Stat\<close> fails for another reason, is not rejected: with a
  writable registry \<open>AddToStartup\<close> succeeds. Whenever \<open>AddToStartup\<close> fails, for whatever
  reason, \<open>handleAddToStartup\<close> leaves the world, and so the cache document, exactly as
  it was, and reports that error when the user confirmed the operation.
\<close>

theorem add_program_failure_keeps_cache:
  "(abs_path w exePath = Some p \<and> stat w p = StatNotExist \<longrightarrow>
      AddToStartup exePath appName w = Inl (FileNotExist p)) \<and>
   (abs_path w exePath = Some p \<and> stat w p \<noteq> StatNotExist \<and> open_set_ok w \<and> \<not> set_value_ok w \<longrightarrow>
      AddToStartup exePath appName w = Inl (SetValueFailed ErrAccess)) \<and>
   (abs_path w exePath = Some p \<and> stat w p \<noteq> StatNotExist \<and> open_set_ok w \<and> set_value_ok w \<longrightarrow>
      (\<exists>w'. AddToStartup exePath appName w = Inr w')) \<and>
   (AddToStartup exePath appName w = Inl e \<longrightarrow>
      snd (handleAddToStartup exePath appName overwrite confirm w) = w \<and>
      (exePath \<noteq> [] \<and> overwrite \<and> confirm \<longrightarrow>
         handleAddToStartup exePath appName overwrite confirm w = (Failed e, w)))"
proof -
  have a: "AddToStartup exePath appName w = Inl (FileNotExist p)"
    if "abs_path w exePath = Some p" "stat w p = StatNotExist"
    using that by (simp add: AddToStartup_def)
  have b: "AddToStartup exePath appName w = Inl (SetValueFailed ErrAccess)"
    if "abs_path w exePath = Some p" "stat w p \<noteq> StatNotExist" "open_set_ok w" "\<not> set_value_ok w"
    using that by (simp add: AddToStartup_def OpenKey_def SetStringValue_def)
  have b': "\<exists>w'. AddToStartup exePath appName w = Inr w'"
    if "abs_path w exePath = Some p" "stat w p \<noteq> StatNotExist" "open_set_ok w" "set_value_ok w"
    using that by (simp add: AddToStartup_def OpenKey_def SetStringValue_def)
  have c: "snd (handleAddToStartup exePath appName overwrite confirm w) = w"
    if "AddToStartup exePath appName w = Inl e"
    using handleAddToStartup_failed [OF that, of overwrite confirm] by auto
  have d: "handleAddToStartup exePath appName overwrite confirm w = (Failed e, w)"
    if "AddToStartup exePath appName w = Inl e" "exePath \<noteq> []" "overwrite" "confirm"
    using that by (simp add: handleAddToStartup_def Let_def)
  show ?thesis using a b b' c d by blast
qed

text \<open>
  The theorem at a world where the file does not exist, at one where the registry
  refuses the write, and at one where the path is a directory.
\<close>

theorem add_program_failure_keeps_cache_witness:
  "abs_path missing_file_world ''a.exe'' = Some ''a.exe'' \<and>
   stat missing_file_world ''a.exe'' = StatNotExist \<and>
   AddToStartup ''a.exe'' ''a'' missing_file_world = Inl (FileNotExist ''a.exe'') \<and>
   handleAddToStartup ''a.exe'' ''a'' True True missing_file_world =
     (Failed (FileNotExist ''a.exe''), missing_file_world) \<and>
   abs_path write_denied_world ''a.exe'' = Some ''a.exe'' \<and>
   stat write_denied_world ''a.exe'' \<noteq> StatNotExist \<and>
   open_set_ok write_denied_world \<and> \<not> set_value_ok write_denied_world \<and>
   AddToStartup ''a.exe'' ''a'' write_denied_world = Inl (SetValueFailed ErrAccess) \<and>
   handleAddToStartup ''a.exe'' ''a'' True True write_denied_world =
     (Failed (SetValueFailed ErrAccess), write_denied_world) \<and>
   snd (handleAddToStartup ''a.exe'' ''a'' True True write_denied_world) = write_denied_world \<and>
   abs_path directory_world ''dir'' = Some ''dir'' \<and>
   stat directory_world ''dir'' \<noteq> StatNotExist \<and>
   open_set_ok directory_world \<and> set_value_ok directory_world \<and>
   (\<exists>w'. AddToStartup ''dir'' ''dir'' directory_world = Inr w')"
proof -
  have m: "abs_path missing_file_world ''a.exe'' = Some ''a.exe''"
    "stat missing_file_world ''a.exe'' = StatNotExist"
    by (simp_all add: missing_file_world_def example_world_def)
  have d: "abs_path write_denied_world ''a.exe'' = Some ''a.exe''"
    "stat write_denied_world ''a.exe'' \<noteq> StatNotExist"
    "open_set_ok write_denied_world" "\<not> set_value_ok write_denied_world"
    by (simp_all add: write_denied_world_def example_world_def)
  have k: "abs_path directory_world ''dir'' = Some ''dir''"
    "stat directory_world ''dir'' \<noteq> StatNotExist"
    "open_set_ok directory_world" "set_value_ok directory_world"
    by (simp_all add: directory_world_def example_world_def)
  show ?thesis
    using m d k
      add_program_failure_keeps_cache [of missing_file_world "''a.exe''" "''a.exe''" "''a''"
        "FileNotExist ''a.exe''" True True]
      add_program_failure_keeps_cache [of write_denied_world "''a.exe''" "''a.exe''" "''a''"
        "SetValueFailed ErrAccess" True True]
      add_program_failure_keeps_cache [of directory_world "''dir''" "''dir''" "''dir''"
        "AbsPathFailed" True True]
    by simp
qed

subsection \<open>C6: Enable fails without touching the cache\<close>

text \<open>
  Claim C6. When the user enables the disabled cache item \<open>n\<close> and the registry
  write fails, \<open>handleEnable\<close> reports the error and leaves the world as it was: the
  cache file still holds the same document, in which the item \<open>n\<close> is disabled.
\<close>

theorem enable_write_failure_keeps_cache:
  assumes load: "loadCache w = Inr C"
    and sel: "showListWithBack (disabledItems C) choice = (idx, True)"
      "disabledItems C ! nat idx = \<lparr>ListItem.Name = n, ListItem.Value = v\<rparr>"
    and fails: "AddCommandToStartup v n w = Inl e"
  shows "handleEnable choice True w = (Failed e, w) \<and>
         loadCache (snd (handleEnable choice True w)) = Inr C \<and>
         \<lparr>Name = n, Value = v, Enabled = False\<rparr> \<in> set (Items C)"
proof -
  have "nat idx < length (disabledItems C)" using sel(1) by (simp add: showListWithBack_True)
  then have "\<lparr>Name = n, Value = v, Enabled = False\<rparr> \<in> set (Items C)"
    using sel(2) by (rule disabledItems_nth)
  then show ?thesis using fails load handleEnable_selected [OF load sel] by simp
qed

text \<open>
  The theorem at \<open>readonly_world\<close>, where \<open>SetStringValue\<close> fails.
\<close>

theorem enable_write_failure_keeps_cache_witness:
  "loadCache readonly_world = Inr \<lparr>Items = [\<lparr>Name = ''Foo'', Value = ''foo.exe'', Enabled = False\<rparr>]\<rparr> \<and>
   showListWithBack (disabledItems \<lparr>Items = [\<lparr>Name = ''Foo'', Value = ''foo.exe'', Enabled = False\<rparr>]\<rparr>)
     (Number 1) = (0, True) \<and>
   disabledItems \<lparr>Items = [\<lparr>Name = ''Foo'', Value = ''foo.exe'', Enabled = False\<rparr>]\<rparr> ! nat 0 =
     \<lparr>ListItem.Name = ''Foo'', ListItem.Value = ''foo.exe''\<rparr> \<and>
   AddCommandToStartup ''foo.exe'' ''Foo'' readonly_world = Inl (SetValueFailed ErrAccess) \<and>
   handleEnable (Number 1) True readonly_world = (Failed (SetValueFailed ErrAccess), readonly_world) \<and>
   cache_file (snd (handleEnable (Number 1) True readonly_world)) =
     FileDoc \<lparr>Items = [\<lparr>Name = ''Foo'', Value = ''foo.exe'', Enabled = False\<rparr>]\<rparr>"
proof -
  let ?C = "\<lparr>Items = [\<lparr>Name = ''Foo'', Value = ''foo.exe'', Enabled = False\<rparr>]\<rparr>"
  have h1: "loadCache readonly_world = Inr ?C" by (simp add: loadCache_def readonly_world_def eval_defs)
  have h2: "showListWithBack (disabledItems ?C) (Number 1) = (0, True)"
    by (simp add: showListWithBack_def disabledItems_def)
  have h3: "disabledItems ?C ! nat 0 = \<lparr>ListItem.Name = ''Foo'', ListItem.Value = ''foo.exe''\<rparr>"
    by (simp add: disabledItems_def)
  have h4: "AddCommandToStartup ''foo.exe'' ''Foo'' readonly_world = Inl (SetValueFailed ErrAccess)"
    by (simp add: AddCommandToStartup_def OpenKey_def SetStringValue_def readonly_world_def eval_defs)
  have h5: "cache_file readonly_world = FileDoc ?C" by (simp add: readonly_world_def eval_defs)
  show ?thesis
    using h1 h2 h3 h4 h5 enable_write_failure_keeps_cache [OF h1 h2 h3 h4] by simp
qed

subsection \<open>C7: RemoveProgram\<close>



subsection \<open>C8: Disable, then Enable\<close>

text \<open>
  Claim C8 says that Disable followed by Enable restores the registry value that was
  there before, whatever it was. What \<open>handleEnable\<close> writes is the command stored in
  the cache item. In \<open>stale_world\<close> the registry holds \<open>new.exe\<close> for \<open>Foo\<close> and the
  cache holds \<open>old.exe\<close>: after the round trip the registry holds \<open>old.exe\<close>.
\<close>

theorem disable_enable_restores_cached_command:
  "GetStringValue stale_world ''Foo'' = Inr ''new.exe'' \<and>
   loadCache stale_world = Inr \<lparr>Items = [\<lparr>Name = ''Foo'', Value = ''old.exe'', Enabled = True\<rparr>]\<rparr> \<and>
   fst (handleDisable (Number 1) True stale_world) = Succeeded \<and>
   fst (handleEnable (Number 1) True (snd (handleDisable (Number 1) True stale_world))) = Succeeded \<and>
   GetStringValue
     (snd (handleEnable (Number 1) True (snd (handleDisable (Number 1) True stale_world)))) ''Foo'' =
     Inr ''old.exe''"
  by (simp add: GetStringValue_def loadCache_def handleDisable_def handleEnable_def
      showListWithBack_def enabledItems_def disabledItems_def RemoveFromStartup_def
      AddCommandToStartup_def OpenKey_def DeleteValue_def SetStringValue_def saveCache_def
      addOrUpdateItem_def findItemByName_def stale_world_def eval_defs)

text \<open>
  Claim C8, amended. In a cache document with unique names, for an item that is
  enabled with command \<open>v\<close> and present in the registry with that same value \<open>v\<close>,
  Disable followed by Enable, with the registry and the cache file writable, both
  succeed; in between the registry value is gone and the item is disabled with its
  command kept; afterwards every registry value reads as before (the value for the name
  is exactly \<open>v\<close>) and the cache document is the one before, with the item enabled
  and its command \<open>v\<close>.
\<close>

theorem disable_enable_round_trip:
  assumes load: "loadCache w = Inr C"
    and dist: "distinct (map Name (Items C))"
    and sel1: "showListWithBack (enabledItems C) choice1 = (idx1, True)"
      "enabledItems C ! nat idx1 = \<lparr>ListItem.Name = n, ListItem.Value = v\<rparr>"
    and reg: "GetStringValue w n = Inr v"
    and ok: "open_set_ok w" "set_value_ok w" "delete_value_ok w" "save_mode w = SaveOk"
    and dis: "handleDisable choice1 True w = (r1, w1)"
    and load1: "loadCache w1 = Inr C1"
    and sel2: "showListWithBack (disabledItems C1) choice2 = (idx2, True)"
      "ListItem.Name (disabledItems C1 ! nat idx2) = n"
    and en: "handleEnable choice2 True w1 = (r2, w2)"
  shows "r1 = Succeeded \<and> r2 = Succeeded \<and>
         GetStringValue w1 n = Inl ErrNotExist \<and>
         snd (findItemByName C1 n) = Some \<lparr>Name = n, Value = v, Enabled = False\<rparr> \<and>
         (\<forall>m. GetStringValue w2 m = GetStringValue w m) \<and>
         loadCache w2 = Inr C \<and>
         snd (findItemByName C n) = Some \<lparr>Name = n, Value = v, Enabled = True\<rparr>"
proof -
  let ?on = "\<lparr>Name = n, Value = v, Enabled = True\<rparr>"
  let ?off = "\<lparr>Name = n, Value = v, Enabled = False\<rparr>"
  let ?D = "addOrUpdateItem C n v False"
  have "nat idx1 < length (enabledItems C)" using sel1(1) by (simp add: showListWithBack_True)
  then have mem: "?on \<in> set (Items C)" using sel1(2) by (rule enabledItems_nth)
  have fnd: "find (\<lambda>i. Name i = n) (Items C) = Some ?on"
    using find_distinct [OF dist mem] by simp
  have present: "map_of (run_values w) n \<noteq> None"
    using reg by (auto simp add: GetStringValue_def split: option.splits)
  let ?wd = "w\<lparr>raw_values := AList.delete n (run_values w)\<rparr>"
  have nv: "json_string n = n" "json_string v = v"
    using member_valid [OF loadCache_valid [OF load] mem] by simp_all
  have validD: "json_doc ?D = ?D"
    using loadCache_valid [OF load] nv by (rule addOrUpdateItem_valid)
  have rem: "RemoveFromStartup n w = Inr ?wd"
    using ok present by (simp add: RemoveFromStartup_Inr)
  have "handleDisable choice1 True w = (Succeeded, snd (saveCache ?D ?wd))"
    using handleDisable_selected [OF load sel1] rem by simp
  then have r1: "r1 = Succeeded" and w1: "w1 = ?wd\<lparr>cache_file := FileDoc ?D\<rparr>"
    using dis ok(4) validD by (simp_all add: saveCache_def)
  have C1: "C1 = ?D" using load1 w1 validD by (simp add: loadCache_def)
  have itemsD: "Items ?D = upsert n v False (Items C)" by (rule Items_addOrUpdateItem)
  have fndD: "find (\<lambda>i. Name i = n) (Items ?D) = Some ?off"
    by (simp add: itemsD find_upsert_same)
  have distD: "distinct (map Name (Items ?D))"
    using dist by (simp add: itemsD distinct_upsert)
  have memD: "?off \<in> set (Items ?D)" using fndD by (rule find_Some_mem)
  have i2: "nat idx2 < length (disabledItems ?D)"
    using sel2(1) C1 by (simp add: showListWithBack_True)
  obtain v2 where at2: "disabledItems ?D ! nat idx2 = \<lparr>ListItem.Name = n, ListItem.Value = v2\<rparr>"
    using sel2(2) C1 by (cases "disabledItems ?D ! nat idx2") auto
  have "\<lparr>Name = n, Value = v2, Enabled = False\<rparr> \<in> set (Items ?D)"
    using i2 at2 by (rule disabledItems_nth)
  then have "\<lparr>Name = n, Value = v2, Enabled = False\<rparr> = ?off"
    using names_unique_member [OF distD _ memD] by simp
  then have at2': "disabledItems C1 ! nat idx2 = \<lparr>ListItem.Name = n, ListItem.Value = v\<rparr>"
    using at2 C1 by simp
  let ?we = "w1\<lparr>raw_values := AList.update n (SZ v) (run_values w1)\<rparr>"
  have add: "AddCommandToStartup v n w1 = Inr ?we"
    using ok w1 nv by (simp add: AddCommandToStartup_Inr)
  have "handleEnable choice2 True w1 = (Succeeded, snd (saveCache (addOrUpdateItem C1 n v True) ?we))"
    using handleEnable_selected [OF load1 sel2(1) at2'] add by simp
  then have r2: "r2 = Succeeded"
    and w2: "w2 = ?we\<lparr>cache_file := FileDoc (json_doc (addOrUpdateItem C1 n v True))\<rparr>"
    using en ok(4) w1 by (simp_all add: saveCache_def)
  have "Items (addOrUpdateItem C1 n v True) = Items C"
    using fnd by (simp add: C1 Items_addOrUpdateItem upsert_upsert upsert_fixed)
  then have restored: "addOrUpdateItem C1 n v True = C" by simp
  have w2': "w2 = ?we\<lparr>cache_file := FileDoc C\<rparr>"
    using w2 restored loadCache_valid [OF load] by simp
  have l2: "loadCache w2 = Inr C"
    using w2' loadCache_valid [OF load] by (simp add: loadCache_def)
  have rv1: "run_values w1 = AList.delete n (run_values w)"
    using w1 by (simp add: run_values_cache_file run_values_delete)
  have g1: "GetStringValue w1 n = Inl ErrNotExist"
    by (simp add: GetStringValue_def rv1 delete_conv')
  have "run_values w2 = AList.update n (SZ v) (run_values w1)"
    using w2' nv by (simp add: run_values_cache_file run_values_update)
  then have g2: "GetStringValue w2 m = GetStringValue w m" for m
    using reg by (auto simp add: rv1 GetStringValue_def update_conv' delete_conv'
        split: option.splits reg_data.splits)
  show ?thesis using r1 r2 g1 g2 l2 fnd fndD C1 by (simp add: snd_findItemByName)
qed

text \<open>
  The theorem at \<open>synced_world\<close>: the round trip leads back to \<open>synced_world\<close>.
\<close>

theorem disable_enable_round_trip_witness:
  "loadCache synced_world = Inr synced_cache \<and>
   distinct (map Name (Items synced_cache)) \<and>
   showListWithBack (enabledItems synced_cache) (Number 1) = (0, True) \<and>
   enabledItems synced_cache ! nat 0 = \<lparr>ListItem.Name = ''Foo'', ListItem.Value = ''foo.exe''\<rparr> \<and>
   GetStringValue synced_world ''Foo'' = Inr ''foo.exe'' \<and>
   handleDisable (Number 1) True synced_world = (Succeeded, disabled_world) \<and>
   loadCache disabled_world = Inr disabled_cache \<and>
   showListWithBack (disabledItems disabled_cache) (Number 2) = (1, True) \<and>
   ListItem.Name (disabledItems disabled_cache ! nat 1) = ''Foo'' \<and>
   handleEnable (Number 2) True disabled_world = (Succeeded, synced_world) \<and>
   GetStringValue disabled_world ''Foo'' = Inl ErrNotExist \<and>
   snd (findItemByName synced_cache ''Foo'') =
     Some \<lparr>Name = ''Foo'', Value = ''foo.exe'', Enabled = True\<rparr>"
proof -
  have h1: "loadCache synced_world = Inr synced_cache"
    by (simp add: loadCache_def synced_world_cache synced_cache_valid)
  have h2: "distinct (map Name (Items synced_cache))" by (simp add: eval_defs)
  have h3: "showListWithBack (enabledItems synced_cache) (Number 1) = (0, True)"
    by (simp add: showListWithBack_def enabledItems_def eval_defs)
  have h4: "enabledItems synced_cache ! nat 0 =
      \<lparr>ListItem.Name = ''Foo'', ListItem.Value = ''foo.exe''\<rparr>"
    by (simp add: enabledItems_def eval_defs)
  have h5: "GetStringValue synced_world ''Foo'' = Inr ''foo.exe''"
    by (simp add: GetStringValue_def synced_world_def eval_defs)
  have h6: "open_set_ok synced_world" "set_value_ok synced_world"
    "delete_value_ok synced_world" "save_mode synced_world = SaveOk"
    by (simp_all add: synced_world_def eval_defs)
  have h7: "handleDisable (Number 1) True synced_world = (Succeeded, disabled_world)"
    using h1 h3 h4
    by (simp add: handleDisable_def RemoveFromStartup_def OpenKey_def DeleteValue_def
        saveCache_def addOrUpdateItem_def findItemByName_def disabled_world_def synced_world_def eval_defs)
  have h8: "loadCache disabled_world = Inr disabled_cache"
    by (simp add: loadCache_def disabled_world_def eval_defs)
  have h9: "showListWithBack (disabledItems disabled_cache) (Number 2) = (1, True)"
    by (simp add: showListWithBack_def disabledItems_def eval_defs)
  have h10: "ListItem.Name (disabledItems disabled_cache ! nat 1) = ''Foo''"
    by (simp add: disabledItems_def eval_defs)
  have h11: "handleEnable (Number 2) True disabled_world = (Succeeded, synced_world)"
    using h8 h9
    by (simp add: handleEnable_def AddCommandToStartup_def OpenKey_def SetStringValue_def
        saveCache_def addOrUpdateItem_def findItemByName_def disabledItems_def
        disabled_world_def synced_world_def eval_defs)
  show ?thesis
    using h1 h2 h3 h4 h5 h7 h8 h9 h10 h11
      disable_enable_round_trip [OF h1 h2 h3 h4 h5 h6 h7 h8 h9 h10 h11]
    by simp
qed

subsection \<open>C9: names stay unique\<close>




subsection \<open>C10: a value that cannot be read as a string\<close>

text \<open>
  Claim C10. A name that the Run key enumerates but whose string value cannot be read
  is not in the snapshot. Sync still completes and saves the cache; in the saved
  document every item of that name is at its position with \<open>Enabled = False\<close> and its
  \<open>Value\<close> unchanged, no item is appended for the name, and the saved file is the one
  Sync saves when the value is not in the registry at all.
\<close>

theorem sync_unreadable_value_like_absent:
  assumes load: "loadCache w = Inr C"
    and reg: "open_query_ok w" "read_names_ok w"
    and save: "save_mode w = SaveOk"
    and unreadable: "n \<in> set (map fst (run_values w))" "GetStringValue w n = Inl e"
    and keys: "range_visits (registry_snapshot w) keys"
  shows "registry_snapshot w n = None \<and>
         (\<exists>C'. cache_file (syncCacheFromRegistry keys w) = FileDoc C' \<and>
            (\<forall>i < length (Items C). Name (Items C ! i) = n \<longrightarrow>
               i < length (Items C') \<and> Items C' ! i = (Items C ! i)\<lparr>Enabled := False\<rparr>) \<and>
            (n \<notin> Name ` set (Items C) \<longrightarrow> n \<notin> Name ` set (Items C'))) \<and>
         cache_file (syncCacheFromRegistry keys w) =
           cache_file (syncCacheFromRegistry keys (w\<lparr>raw_values := AList.delete n (run_values w)\<rparr>))"
proof -
  let ?R = "registry_snapshot w"
  let ?xs = "step2_items ?R keys (sync_step1 ?R (Items C))"
  let ?C' = "C\<lparr>Items := ?xs\<rparr>"
  let ?w' = "w\<lparr>raw_values := AList.delete n (run_values w)\<rparr>"
  have none: "?R n = None" using unreadable(2) by (simp add: registry_snapshot_apply)
  have valid: "json_doc ?C' = ?C'" using load by (rule sync_doc_valid)
  have saved: "cache_file (syncCacheFromRegistry keys w) = FileDoc ?C'"
    using sync_saves [OF load reg] save valid by (simp add: saveCache_def)
  have kept: "i < length ?xs \<and> ?xs ! i = (Items C ! i)\<lparr>Enabled := False\<rparr>"
    if i: "i < length (Items C)" and nm: "Name (Items C ! i) = n" for i
  proof -
    have s1: "sync_step1 ?R (Items C) ! i = (Items C ! i)\<lparr>Enabled := False\<rparr>"
      using i nm none by (simp add: nth_step1)
    have "i < length (sync_step1 ?R (Items C))" using i by (simp add: length_step1)
    moreover have "?R (Name (sync_step1 ?R (Items C) ! i)) = None" using s1 nm none by simp
    ultimately show ?thesis using nth_step2 [of i "sync_step1 ?R (Items C)" ?R keys] s1 by simp
  qed
  have names: "Name ` set ?xs = Name ` set (Items C) \<union> (set keys \<inter> dom ?R)"
  proof -
    have "Name ` set (sync_step1 ?R (Items C)) = Name ` set (Items C)"
      using names_step1 [of ?R "Items C"] by (metis set_map)
    then show ?thesis by (simp add: names_step2)
  qed
  have fresh: "n \<notin> Name ` set ?xs" if "n \<notin> Name ` set (Items C)"
    using that none names by auto
  have load': "loadCache ?w' = Inr C" using load by (simp add: loadCache_def)
  have "syncCacheFromRegistry keys ?w' = snd (saveCache (C\<lparr>Items := step2_items (registry_snapshot ?w') keys
                                (sync_step1 (registry_snapshot ?w') (Items C))\<rparr>) ?w')"
    using load' reg by (intro sync_saves) simp_all
  then have same: "cache_file (syncCacheFromRegistry keys ?w') = FileDoc ?C'"
    using save valid snapshot_delete_unreadable [OF unreadable(2)] by (simp add: saveCache_def)
  show ?thesis using none saved kept fresh same by auto
qed

text \<open>
  The theorem at \<open>example_world\<close>, whose value \<open>Odd\<close> is not a string.
\<close>

theorem sync_unreadable_value_like_absent_witness:
  "loadCache example_world = Inr example_cache \<and>
   open_query_ok example_world \<and> read_names_ok example_world \<and>
   save_mode example_world = SaveOk \<and>
   ''Odd'' \<in> set (map fst (run_values example_world)) \<and>
   GetStringValue example_world ''Odd'' = Inl ErrUnexpectedType \<and>
   range_visits (registry_snapshot example_world) [''Foo''] \<and>
   Name (Items example_cache ! 1) = ''Odd'' \<and>
   registry_snapshot example_world ''Odd'' = None \<and>
   (\<exists>C'. cache_file (syncCacheFromRegistry [''Foo''] example_world) = FileDoc C' \<and>
      Items C' ! 1 = \<lparr>Name = ''Odd'', Value = ''odd.exe'', Enabled = False\<rparr>) \<and>
   cache_file (syncCacheFromRegistry [''Foo''] example_world) =
     cache_file (syncCacheFromRegistry [''Foo'']
       (example_world\<lparr>raw_values := AList.delete ''Odd'' (run_values example_world)\<rparr>))"
proof -
  have h1: "loadCache example_world = Inr example_cache"
    by (simp add: loadCache_def example_world_def eval_defs)
  have h2: "open_query_ok example_world" "read_names_ok example_world"
    by (simp_all add: example_world_def eval_defs)
  have h3: "save_mode example_world = SaveOk" by (simp add: example_world_def eval_defs)
  have h4: "''Odd'' \<in> set (map fst (run_values example_world))"
    by (simp add: example_world_def eval_defs)
  have h5: "GetStringValue example_world ''Odd'' = Inl ErrUnexpectedType"
    by (simp add: GetStringValue_def example_world_def eval_defs)
  have h6: "1 < length (Items example_cache)" "Name (Items example_cache ! 1) = ''Odd''"
    "(Items example_cache ! 1)\<lparr>Enabled := False\<rparr> = \<lparr>Name = ''Odd'', Value = ''odd.exe'', Enabled = False\<rparr>"
    by (simp_all add: eval_defs)
  note concl = sync_unreadable_value_like_absent [OF h1 h2 h3 h4 h5 example_world_visits]
  from concl obtain C' where c: "cache_file (syncCacheFromRegistry [''Foo''] example_world) = FileDoc C'"
    and q: "\<forall>i < length (Items example_cache). Name (Items example_cache ! i) = ''Odd'' \<longrightarrow>
               i < length (Items C') \<and> Items C' ! i = (Items example_cache ! i)\<lparr>Enabled := False\<rparr>"
    by blast
  have "Items C' ! 1 = \<lparr>Name = ''Odd'', Value = ''odd.exe'', Enabled = False\<rparr>"
    using q h6 by metis
  then show ?thesis using h1 h2 h3 h4 h5 h6(2) example_world_visits c concl by blast
qed

end
